theory Spec2Isabelle
  imports Complex_Main "HOL-Library.Word"
begin

section \<open>The note generator of noteWall (class NoteGenerator)\<close>

text \<open>
  Modelling conventions.
  \<^item> A JavaScript string is the list of its UTF-16 code units, so that \<open>length\<close> is the
    source's \<open>.length\<close>. Source names and colour tokens are ASCII and stay Isabelle strings.
  \<^item> A JavaScript number that holds a pixel coordinate or a random draw is a real number;
    counters and indices are integers. NaN and the infinities are not represented.
  \<^item> A value that may be \<open>undefined\<close> or \<open>null\<close> is an option, \<open>None\<close> standing for both;
    such a value is truthy when it is \<open>Some s\<close> with \<open>s\<close> not the empty string.
  \<^item> Every call of \<open>Math.random()\<close> and every answer of a remote endpoint is an input of
    the function that consumes it.
  \<^item> An \<open>async\<close> function runs up to its first \<open>await\<close> inside the call that starts it.
    The pass over the sources is modelled both ways: step by step, from one \<open>await\<close> to the
    next, and run to completion with no other operation of the generator in between.
\<close>

subsection \<open>Strings and array reads\<close>

type_synonym jsstring = "16 word list"

definition nl :: "16 word" where "nl = 0x0A"
definition space :: "16 word" where "space = 0x20"
definition emdash :: "16 word" where "emdash = 0x2014"

text \<open>The literal of two code units U+7F51 U+7EDC that fetchHitokoto compares with.\<close>

definition wangluo :: jsstring where
  "wangluo = [0x7F51, 0x7EDC]"

text \<open>The template prefix of both remote sources: a line feed, two em dashes, a space.\<close>

definition attribution_prefix :: jsstring where
  "attribution_prefix = [nl, emdash, emdash, space]"

text \<open>The form the specification gives: a line feed, one em dash, a space.\<close>

definition spec_attribution_prefix :: jsstring where
  "spec_attribution_prefix = [nl, emdash, space]"

text \<open>\<open>xs[i]\<close>: \<open>undefined\<close> outside the array.\<close>

definition js_nth :: "'a list \<Rightarrow> int \<Rightarrow> 'a option" where
  "js_nth xs i = (if 0 \<le> i \<and> i < int (length xs) then Some (xs ! nat i) else None)"

text \<open>\<open>Math.floor(Math.random() * n)\<close> for the draw \<open>u\<close>.\<close>

definition random_index :: "real \<Rightarrow> nat \<Rightarrow> int" where
  "random_index u n = \<lfloor>u * real n\<rfloor>"

subsection \<open>The state of a generator\<close>

text \<open>
  \<open>TypeError\<close>: a property read on \<open>null\<close> or \<open>undefined\<close>. \<open>FetchError\<close>: the
  \<open>Error\<close> that a remote source throws for a failed request. \<open>NotANumber\<close>: the source
  goes on with NaN coordinates, which the model does not have; the model stops there.
\<close>

datatype error = TypeError | FetchError | NotANumber

record api_source =
  src_name :: string
  src_url :: "string option"
  src_enabled :: bool

text \<open>An element is referred to by its identity; \<open>===\<close> on elements compares identities.\<close>

type_synonym elem_ref = nat

record dom_element =
  elem_id :: elem_ref
  className :: string
  textContent :: jsstring
  style_left :: real
  style_top :: real
  style_width :: real
  style_height :: real
  style_fontSize :: real
  note_index :: int

record canvas_element =
  rect_width :: real
  rect_height :: real
  children :: "dom_element list"

record note_record =
  note_x :: real
  note_y :: real
  note_element :: elem_ref

record generator =
  messages :: "jsstring list"
  usedMessages :: "jsstring set"
  colors :: "string list"
  noteCount :: int
  canvas :: "canvas_element option"
  notes_list :: "note_record list"
  useHitokoto :: bool
  hitokotoCache :: "jsstring list"
  usedApiTexts :: "jsstring set"
  apiSources :: "api_source list"
  currentApiIndex :: nat
  debugMode :: bool

definition constructor :: generator where
  "constructor =
     \<lparr> messages = [],
       usedMessages = {},
       colors = [''pink'', ''green'', ''yellow'', ''blue'', ''purple'', ''orange''],
       noteCount = 0,
       canvas = None,
       notes_list = [],
       useHitokoto = True,
       hitokotoCache = [],
       usedApiTexts = {},
       apiSources =
         [\<lparr> src_name = ''hitokoto'',
             src_url = Some ''https://v1.hitokoto.cn/?c=a&c=b&c=d&c=h&c=i&c=k'',
             src_enabled = True \<rparr>,
          \<lparr> src_name = ''jinrishici'',
             src_url = Some ''https://v1.jinrishici.com/all.json'',
             src_enabled = True \<rparr>,
          \<lparr> src_name = ''local'', src_url = None, src_enabled = True \<rparr>],
       currentApiIndex = 0,
       debugMode = False \<rparr>"

definition setDebugMode :: "bool \<Rightarrow> generator \<Rightarrow> generator" where
  "setDebugMode enabled g = g\<lparr>debugMode := enabled\<rparr>"

subsection \<open>The remote sources\<close>

text \<open>
  The parsed JSON of an answer. \<open>None\<close> for the whole answer is a failed request: a network
  error, the abort after two seconds, or a body that does not parse; an absent author
  field is \<open>None\<close> in the record.
\<close>

record hitokoto_data =
  hitokoto :: jsstring
  from_field :: "jsstring option"

record jinrishici_data =
  content :: jsstring
  author :: "jsstring option"

definition fetchHitokoto :: "hitokoto_data option \<Rightarrow> error + jsstring" where
  "fetchHitokoto response =
     (case response of
        None \<Rightarrow> Inl FetchError
      | Some data \<Rightarrow>
          (case from_field data of
             None \<Rightarrow> Inr (hitokoto data)
           | Some f \<Rightarrow>
               if f \<noteq> [] \<and> f \<noteq> wangluo \<and> length f < 15
               then Inr (hitokoto data @ attribution_prefix @ f)
               else Inr (hitokoto data)))"

definition fetchJinrishici :: "jinrishici_data option \<Rightarrow> error + jsstring" where
  "fetchJinrishici response =
     (case response of
        None \<Rightarrow> Inl FetchError
      | Some data \<Rightarrow>
          (case author data of
             None \<Rightarrow> Inr (content data)
           | Some a \<Rightarrow>
               if a \<noteq> [] \<and> length a < 10
               then Inr (content data @ attribution_prefix @ a)
               else Inr (content data)))"

subsection \<open>The local list\<close>

definition getLocalMessage :: "real \<Rightarrow> generator \<Rightarrow> jsstring option \<times> generator" where
  "getLocalMessage u g =
     (let availableMessages = filter (\<lambda>msg. msg \<notin> usedApiTexts g) (messages g)
      in if length availableMessages = 0
         then (js_nth (messages g) (random_index u (length (messages g))),
               g\<lparr>usedApiTexts := {}\<rparr>)
         else (js_nth availableMessages (random_index u (length availableMessages)), g))"

subsection \<open>The aggregation over the sources\<close>

text \<open>What the outside world answers during one pass of the loop of fetchFromAPIs.\<close>

record world =
  hitokoto_answer :: "hitokoto_data option"
  jinrishici_answer :: "jinrishici_data option"
  random_draw :: real

text \<open>
  The body of the \<open>try\<close> block for one source: the text, or the exception that the
  \<open>catch\<close> of the loop receives. An unknown source name leaves the text \<open>null\<close>.
\<close>

definition fetchSource ::
  "api_source \<Rightarrow> world \<Rightarrow> generator \<Rightarrow> (error + jsstring option) \<times> generator" where
  "fetchSource source w g =
     (if src_name source = ''hitokoto'' then
        (case fetchHitokoto (hitokoto_answer w) of
           Inl e \<Rightarrow> (Inl e, g) | Inr t \<Rightarrow> (Inr (Some t), g))
      else if src_name source = ''jinrishici'' then
        (case fetchJinrishici (jinrishici_answer w) of
           Inl e \<Rightarrow> (Inl e, g) | Inr t \<Rightarrow> (Inr (Some t), g))
      else if src_name source = ''local'' then
        (case getLocalMessage (random_draw w) g of (t, g') \<Rightarrow> (Inr t, g'))
      else (Inr None, g))"

text \<open>
  The \<open>for\<close> loop run to completion, by the number of passes left and the loop index \<open>i\<close>;
  \<open>ws i\<close> is what the world answers during pass \<open>i\<close>. Reading a source beyond the list is \<open>undefined\<close>, and
  its \<open>.enabled\<close> throws outside the \<open>try\<close>, after the cursor has moved.
\<close>

fun fetchLoop ::
  "nat \<Rightarrow> nat \<Rightarrow> (nat \<Rightarrow> world) \<Rightarrow> generator \<Rightarrow> (error + jsstring option) \<times> generator" where
  "fetchLoop 0 i ws g = (Inr None, g)"
| "fetchLoop (Suc k) i ws g =
     (let source = js_nth (apiSources g) (int (currentApiIndex g));
          g1 = g\<lparr>currentApiIndex := (currentApiIndex g + 1) mod length (apiSources g)\<rparr>
      in case source of
           None \<Rightarrow> (Inl TypeError, g1)
         | Some s \<Rightarrow>
             if \<not> src_enabled s then fetchLoop k (Suc i) ws g1
             else
               (case fetchSource s (ws i) g1 of
                  (Inl e, g2) \<Rightarrow> fetchLoop k (Suc i) ws g2
                | (Inr None, g2) \<Rightarrow> fetchLoop k (Suc i) ws g2
                | (Inr (Some text), g2) \<Rightarrow>
                    if text \<noteq> [] \<and> text \<notin> usedApiTexts g2
                    then (Inr (Some text), g2\<lparr>usedApiTexts := insert text (usedApiTexts g2)\<rparr>)
                    else fetchLoop k (Suc i) ws g2))"

definition fetchFromAPIs ::
  "(nat \<Rightarrow> world) \<Rightarrow> generator \<Rightarrow> (error + jsstring option) \<times> generator" where
  "fetchFromAPIs ws g = fetchLoop (length (apiSources g)) 0 ws g"

text \<open>
  \<open>fetchFromAPIs\<close> above is the call run to completion. Step by step, the call is in one of
  two states: its promise is settled, fulfilled with a text or \<open>null\<close> or rejected with an
  exception; or it waits at the \<open>await\<close> of a remote source \<open>s\<close> in pass \<open>i\<close>, with \<open>k\<close> passes left
  after that one.
\<close>

datatype fetch_state =
    Settled "error + jsstring option"
  | Awaiting nat nat api_source

text \<open>
  The loop from the start of a pass up to the next \<open>await\<close>. Only the two remote sources are
  awaited; the local pick and an unknown source name go on within the same step.
\<close>

fun fetchRun ::
  "nat \<Rightarrow> nat \<Rightarrow> (nat \<Rightarrow> world) \<Rightarrow> generator \<Rightarrow> fetch_state \<times> generator" where
  "fetchRun 0 i ws g = (Settled (Inr None), g)"
| "fetchRun (Suc k) i ws g =
     (let source = js_nth (apiSources g) (int (currentApiIndex g));
          g1 = g\<lparr>currentApiIndex := (currentApiIndex g + 1) mod length (apiSources g)\<rparr>
      in case source of
           None \<Rightarrow> (Settled (Inl TypeError), g1)
         | Some s \<Rightarrow>
             if \<not> src_enabled s then fetchRun k (Suc i) ws g1
             else if src_name s = ''hitokoto'' \<or> src_name s = ''jinrishici''
             then (Awaiting k i s, g1)
             else
               (case fetchSource s (ws i) g1 of
                  (Inl e, g2) \<Rightarrow> fetchRun k (Suc i) ws g2
                | (Inr None, g2) \<Rightarrow> fetchRun k (Suc i) ws g2
                | (Inr (Some text), g2) \<Rightarrow>
                    if text \<noteq> [] \<and> text \<notin> usedApiTexts g2
                    then (Settled (Inr (Some text)),
                          g2\<lparr>usedApiTexts := insert text (usedApiTexts g2)\<rparr>)
                    else fetchRun k (Suc i) ws g2))"

text \<open>The part of \<open>fetchFromAPIs\<close> that runs inside the call: up to the first \<open>await\<close>.\<close>

definition fetchFromAPIs_start :: "(nat \<Rightarrow> world) \<Rightarrow> generator \<Rightarrow> fetch_state \<times> generator" where
  "fetchFromAPIs_start ws g = fetchRun (length (apiSources g)) 0 ws g"

text \<open>
  The awaited source answers, in the state \<open>g\<close> that the generator has by then: the rest of
  the pass, and the loop up to the next \<open>await\<close>.
\<close>

definition fetchResume ::
  "nat \<Rightarrow> nat \<Rightarrow> api_source \<Rightarrow> (nat \<Rightarrow> world) \<Rightarrow> generator \<Rightarrow> fetch_state \<times> generator" where
  "fetchResume k i s ws g =
     (case fetchSource s (ws i) g of
        (Inl e, g2) \<Rightarrow> fetchRun k (Suc i) ws g2
      | (Inr None, g2) \<Rightarrow> fetchRun k (Suc i) ws g2
      | (Inr (Some text), g2) \<Rightarrow>
          if text \<noteq> [] \<and> text \<notin> usedApiTexts g2
          then (Settled (Inr (Some text)), g2\<lparr>usedApiTexts := insert text (usedApiTexts g2)\<rparr>)
          else fetchRun k (Suc i) ws g2)"

text \<open>A call in progress run to its end, with no other operation in between.\<close>

definition fetchFinish ::
  "(nat \<Rightarrow> world) \<Rightarrow> fetch_state \<Rightarrow> generator \<Rightarrow> (error + jsstring option) \<times> generator" where
  "fetchFinish ws fs g =
     (case fs of
        Settled r \<Rightarrow> (r, g)
      | Awaiting k i s \<Rightarrow>
          (case fetchSource s (ws i) g of
             (Inl e, g2) \<Rightarrow> fetchLoop k (Suc i) ws g2
           | (Inr None, g2) \<Rightarrow> fetchLoop k (Suc i) ws g2
           | (Inr (Some text), g2) \<Rightarrow>
               if text \<noteq> [] \<and> text \<notin> usedApiTexts g2
               then (Inr (Some text), g2\<lparr>usedApiTexts := insert text (usedApiTexts g2)\<rparr>)
               else fetchLoop k (Suc i) ws g2))"

subsection \<open>The next quote\<close>

text \<open>
  The result of getRandomMessage: the text, the refill of the cache that the call has
  started, if any, in the state that its fetch has reached, and the state of the generator
  at the \<open>return\<close>. The fetch of the refill has by then run up to its first \<open>await\<close>: the cursor
  has moved, and with the cursor on the local source the pick is made and recorded.
\<close>

definition getRandomMessage ::
  "(nat \<Rightarrow> world) \<Rightarrow> real \<Rightarrow> generator \<Rightarrow> jsstring option \<times> fetch_state option \<times> generator" where
  "getRandomMessage ws u g =
     (if length (hitokotoCache g) > 0 then
        (let text = hd (hitokotoCache g);
             g1 = g\<lparr>hitokotoCache := tl (hitokotoCache g)\<rparr>
         in if length (hitokotoCache g1) < 3
            then (case fetchFromAPIs_start ws g1 of
                    (refill, g2) \<Rightarrow> (Some text, Some refill, g2))
            else (Some text, None, g1))
      else (case getLocalMessage u g of (t, g') \<Rightarrow> (t, None, g')))"

text \<open>
  The two callbacks of the refill, run when its fetch has settled with \<open>r\<close>: \<open>then\<close> appends
  a truthy text to the cache, and the empty \<open>catch\<close> takes an exception.
\<close>

definition refillSettled :: "error + jsstring option \<Rightarrow> generator \<Rightarrow> generator" where
  "refillSettled r g =
     (case r of
        Inl e \<Rightarrow> g
      | Inr None \<Rightarrow> g
      | Inr (Some newText) \<Rightarrow>
          if newText \<noteq> [] then g\<lparr>hitokotoCache := hitokotoCache g @ [newText]\<rparr> else g)"

text \<open>A refill that has been started, run to its end with no other operation in between.\<close>

definition refillFinish :: "(nat \<Rightarrow> world) \<Rightarrow> fetch_state \<Rightarrow> generator \<Rightarrow> generator" where
  "refillFinish ws refill g = (case fetchFinish ws refill g of (r, g') \<Rightarrow> refillSettled r g')"

text \<open>A whole refill in one step, from the call of fetchFromAPIs to the callbacks.\<close>

definition refillCache :: "(nat \<Rightarrow> world) \<Rightarrow> generator \<Rightarrow> generator" where
  "refillCache ws g =
     (case fetchFromAPIs ws g of
        (Inl e, g') \<Rightarrow> g'
      | (Inr None, g') \<Rightarrow> g'
      | (Inr (Some newText), g') \<Rightarrow>
          if newText \<noteq> [] then g'\<lparr>hitokotoCache := hitokotoCache g' @ [newText]\<rparr>
          else g')"

text \<open>
  What a caller finds after \<open>await this.getRandomMessage()\<close>. When the fetch of the refill
  has settled within the call, the job of its \<open>then\<close> callback is queued before the job that
  resumes the caller, and has run by then; a fetch that waits for a remote source is still
  in progress.
\<close>

definition awaitRandomMessage ::
  "(nat \<Rightarrow> world) \<Rightarrow> real \<Rightarrow> generator \<Rightarrow> jsstring option \<times> fetch_state option \<times> generator" where
  "awaitRandomMessage ws u g =
     (case getRandomMessage ws u g of
        (t, Some (Settled r), g1) \<Rightarrow> (t, None, refillSettled r g1)
      | (t, Some (Awaiting k i s), g1) \<Rightarrow> (t, Some (Awaiting k i s), g1)
      | (t, None, g1) \<Rightarrow> (t, None, g1))"

subsection \<open>Start-up\<close>

definition fallbackMessages :: "jsstring list" where
  "fallbackMessages =
     [[0x575A, 0x6301, 0x68A6, 0x60F3],
      [0x4E0D, 0x6015, 0x5931, 0x8D25],
      [0x4E00, 0x8D77, 0x52A0, 0x6CB9],
      [0x4F60, 0x503C, 0x5F97, 0x88AB, 0x7231],
      [0x4FDD, 0x6301, 0x8010, 0x5FC3],
      [0x505A, 0x6700, 0x597D, 0x7684, 0x81EA, 0x5DF1],
      [0x76F8, 0x4FE1, 0x81EA, 0x5DF1],
      [0x81EA, 0x4FE1, 0x6EE1, 0x6EE1],
      [0x95EA, 0x95EA, 0x53D1, 0x5149],
      [0x52C7, 0x5F80, 0x76F4, 0x524D],
      [0x4EBA, 0x751F, 0x5982, 0x9006, 0x65C5, 0x002C, 0x6211, 0x4EA6, 0x662F, 0x884C, 0x4EBA],
      [0x5C71, 0x9AD8, 0x8DEF, 0x8FDC, 0x002C, 0x770B, 0x4E16, 0x754C, 0x4E5F, 0x770B, 0x81EA,
       0x5DF1],
      [0x6162, 0x6162, 0x6765, 0x002C, 0x6BD4, 0x8F83, 0x5FEB],
      [0x70ED, 0x7231, 0x53EF, 0x62B5, 0x5C81, 0x6708, 0x6F2B, 0x957F],
      [0x6E29, 0x67D4, 0x4E14, 0x575A, 0x5B9A]]"

text \<open>
  \<open>init\<close>: the canvas and the local list, \<open>loaded\<close> being the \<open>messages\<close> array of
  data/messages.json, or \<open>None\<close> when loading it failed. The five concurrent fetches of
  preloadHitokoto are not part of this function: each of them acts on the state as the
  fetch of a refill does, and a text that it returns is appended to the cache.
\<close>

definition init :: "canvas_element \<Rightarrow> jsstring list option \<Rightarrow> generator \<Rightarrow> generator" where
  "init canvasElement loaded g =
     g\<lparr>canvas := Some canvasElement,
       messages := (case loaded of Some ms \<Rightarrow> ms | None \<Rightarrow> fallbackMessages)\<rparr>"

subsection \<open>Colour and size\<close>

definition getRandomColor :: "real \<Rightarrow> generator \<Rightarrow> string option" where
  "getRandomColor u g = js_nth (colors g) (random_index u (length (colors g)))"

record note_size =
  size_width :: real
  size_height :: real
  size_fontSize :: real

definition calculateNoteSize :: "jsstring \<Rightarrow> note_size" where
  "calculateNoteSize text =
     (let len = length text
      in if len > 50 then \<lparr>size_width = 130, size_height = 120, size_fontSize = 0.65\<rparr>
         else if len > 40 then \<lparr>size_width = 120, size_height = 110, size_fontSize = 0.68\<rparr>
         else if len > 25 then \<lparr>size_width = 115, size_height = 108, size_fontSize = 0.7\<rparr>
         else if len > 15 then \<lparr>size_width = 110, size_height = 105, size_fontSize = 0.72\<rparr>
         else if len < 8 then \<lparr>size_width = 90, size_height = 90, size_fontSize = 0.8\<rparr>
         else \<lparr>size_width = 100, size_height = 100, size_fontSize = 0.75\<rparr>)"

subsection \<open>Placement\<close>

record position =
  pos_x :: real
  pos_y :: real

text \<open>The responsive scale, from the smaller side of the surface.\<close>

definition heartScale :: "real \<Rightarrow> real" where
  "heartScale baseScale =
     (if baseScale < 500 then baseScale * 0.025
      else if baseScale < 768 then baseScale * 0.028
      else if baseScale < 1024 then baseScale * 0.032
      else baseScale * 0.035)"

text \<open>
  With \<open>totalNotes = 0\<close> the quotient of the source is infinite or NaN and so are both
  coordinates.
\<close>

definition getHeartPosition :: "real \<Rightarrow> real \<Rightarrow> generator \<Rightarrow> error + position" where
  "getHeartPosition index totalNotes g =
     (case canvas g of
        None \<Rightarrow> Inl TypeError
      | Some canvasRect \<Rightarrow>
          if totalNotes = 0 then Inl NotANumber
          else
            (let centerX = rect_width canvasRect / 2;
                 centerY = rect_height canvasRect / 2;
                 angle = (index / totalNotes) * pi * 2;
                 baseScale = min (rect_width canvasRect) (rect_height canvasRect);
                 scale = heartScale baseScale;
                 t = angle;
                 x = 16 * (sin t) ^ 3 * scale;
                 y = - (13 * cos t - 5 * cos (2 * t) - 2 * cos (3 * t) - cos (4 * t)) * scale
             in Inr \<lparr>pos_x = centerX + x - 50, pos_y = centerY + y - 50\<rparr>))"

text \<open>
  The random placement. \<open>rnd k\<close> is the \<open>k\<close>-th draw of \<open>Math.random()\<close> in the call: pass
  \<open>attempts\<close> of the loop takes the draws \<open>2 * attempts\<close> and \<open>2 * attempts + 1\<close>, and the
  return after the loop takes the two that follow.
\<close>

definition tooClose :: "note_record list \<Rightarrow> real \<Rightarrow> real \<Rightarrow> bool" where
  "tooClose ns x y =
     list_ex (\<lambda>n. let dx = note_x n - x; dy = note_y n - y;
                      distance = sqrt (dx * dx + dy * dy)
                  in distance < 160) ns"

definition samplePoint :: "(nat \<Rightarrow> real) \<Rightarrow> nat \<Rightarrow> canvas_element \<Rightarrow> real \<Rightarrow> real \<Rightarrow> position" where
  "samplePoint rnd k canvasRect noteWidth noteHeight =
     \<lparr>pos_x = 20 + rnd k * (rect_width canvasRect - noteWidth - 20 * 2),
      pos_y = 20 + rnd (k + 1) * (rect_height canvasRect - noteHeight - 20 * 2)\<rparr>"

function randomPositionLoop ::
  "nat \<Rightarrow> (nat \<Rightarrow> real) \<Rightarrow> canvas_element \<Rightarrow> note_record list \<Rightarrow> real \<Rightarrow> real \<Rightarrow> position" where
  "randomPositionLoop attempts rnd canvasRect ns noteWidth noteHeight =
     (if attempts < 30 then
        (let p = samplePoint rnd (2 * attempts) canvasRect noteWidth noteHeight
         in if \<not> tooClose ns (pos_x p) (pos_y p) then p
            else randomPositionLoop (attempts + 1) rnd canvasRect ns noteWidth noteHeight)
      else samplePoint rnd (2 * attempts) canvasRect noteWidth noteHeight)"
  by pat_completeness auto
termination
  by (relation "measure (\<lambda>(attempts, _). 30 - attempts)") auto

declare randomPositionLoop.simps [simp del]

definition getRandomPosition :: "(nat \<Rightarrow> real) \<Rightarrow> real \<Rightarrow> real \<Rightarrow> generator \<Rightarrow> error + position" where
  "getRandomPosition rnd noteWidth noteHeight g =
     (case canvas g of
        None \<Rightarrow> Inl TypeError
      | Some canvasRect \<Rightarrow>
          Inr (randomPositionLoop 0 rnd canvasRect (notes_list g) noteWidth noteHeight))"

subsection \<open>Notes\<close>

text \<open>\<open>Array.prototype.findIndex\<close>: the first index that satisfies the test, or \<open>-1\<close>.\<close>

fun findIndex :: "('a \<Rightarrow> bool) \<Rightarrow> 'a list \<Rightarrow> int" where
  "findIndex P [] = - 1"
| "findIndex P (x # xs) =
     (if P x then 0 else (let r = findIndex P xs in if r = - 1 then - 1 else r + 1))"

text \<open>
  \<open>generateNote\<close>, given the draws for the message and the colour and the identity \<open>ref\<close> of
  the element that \<open>document.createElement\<close> returns. The result is the element, or the
  exception that stops the function: \<open>text.length\<close> on an undefined message, or the
  bounding rectangle of a canvas that is still \<open>null\<close>. The second component is the fetch
  of a refill that is still in progress. The \<open>dataset.id\<close> of the element and the log line
  are not modelled.
\<close>

definition generateNote ::
  "(nat \<Rightarrow> world) \<Rightarrow> real \<Rightarrow> real \<Rightarrow> elem_ref \<Rightarrow> generator
     \<Rightarrow> (error + dom_element) \<times> fetch_state option \<times> generator" where
  "generateNote ws u_message u_color ref g =
     (case awaitRandomMessage ws u_message g of
        (None, refill, g1) \<Rightarrow> (Inl TypeError, refill, g1)
      | (Some message, refill, g1) \<Rightarrow>
          (let color = getRandomColor u_color g1;
               size = calculateNoteSize message
           in case getHeartPosition (of_int (noteCount g1)) 50 g1 of
                Inl e \<Rightarrow> (Inl e, refill, g1)
              | Inr position \<Rightarrow>
                  (let element =
                         \<lparr>elem_id = ref,
                          className =
                            ''note '' @ (case color of Some c \<Rightarrow> c | None \<Rightarrow> ''undefined''),
                          textContent = message,
                          style_left = pos_x position,
                          style_top = pos_y position,
                          style_width = size_width size,
                          style_height = size_height size,
                          style_fontSize = size_fontSize size,
                          note_index = noteCount g1\<rparr>;
                       g2 = g1\<lparr>notes_list := notes_list g1 @
                                  [\<lparr>note_x = pos_x position, note_y = pos_y position,
                                    note_element = ref\<rparr>]\<rparr>;
                       g3 = g2\<lparr>canvas := map_option
                                  (\<lambda>c. c\<lparr>children := children c @ [element]\<rparr>) (canvas g2)\<rparr>;
                       g4 = g3\<lparr>noteCount := noteCount g3 + 1\<rparr>
                   in (Inr element, refill, g4))))"

text \<open>\<open>clearAll\<close> reads \<open>this.canvas.firstChild\<close> first, which throws on a \<open>null\<close> canvas.\<close>

definition clearAll :: "generator \<Rightarrow> (error + unit) \<times> generator" where
  "clearAll g =
     (case canvas g of
        None \<Rightarrow> (Inl TypeError, g)
      | Some c \<Rightarrow>
          (Inr (),
           g\<lparr>canvas := Some (c\<lparr>children := []\<rparr>),
             notes_list := [],
             noteCount := 0,
             usedMessages := {}\<rparr>))"

definition removeNote :: "elem_ref \<Rightarrow> generator \<Rightarrow> generator" where
  "removeNote noteElement g =
     (let index = findIndex (\<lambda>n. note_element n = noteElement) (notes_list g)
      in if index \<noteq> - 1 then
           g\<lparr>notes_list := take (nat index) (notes_list g) @ drop (nat index + 1) (notes_list g),
             canvas := map_option
               (\<lambda>c. c\<lparr>children := filter (\<lambda>e. elem_id e \<noteq> noteElement) (children c)\<rparr>)
               (canvas g),
             noteCount := noteCount g - 1\<rparr>
         else g)"

definition updateNotePosition :: "elem_ref \<Rightarrow> real \<Rightarrow> real \<Rightarrow> generator \<Rightarrow> generator" where
  "updateNotePosition noteElement x y g =
     (let index = findIndex (\<lambda>n. note_element n = noteElement) (notes_list g)
      in if index \<noteq> - 1 then
           g\<lparr>notes_list := (notes_list g)
                [nat index := (notes_list g ! nat index)\<lparr>note_x := x, note_y := y\<rparr>]\<rparr>
         else g)"

definition getCount :: "generator \<Rightarrow> int" where
  "getCount g = noteCount g"

subsection \<open>Runs of a generator\<close>

text \<open>
  The steps that change a generator, with the inputs each one consumes. \<open>FetchStart\<close> is a
  call of fetchFromAPIs by the preload, up to its first \<open>await\<close>; \<open>FetchResume\<close> is the answer
  of the remote source that a fetch waits for, up to the next \<open>await\<close>; \<open>FetchSettled\<close> is the
  callback that appends the result of a settled fetch to the cache; \<open>FetchDone\<close> is a whole
  fetch with its callback in one step. The state after a call that throws is the state at
  the throw.
\<close>

datatype operation =
    Init canvas_element "jsstring list option"
  | SetDebugMode bool
  | FetchStart "nat \<Rightarrow> world"
  | FetchResume nat nat api_source "nat \<Rightarrow> world"
  | FetchSettled "error + jsstring option"
  | FetchDone "nat \<Rightarrow> world"
  | GetRandomMessage "nat \<Rightarrow> world" real
  | GenerateNote "nat \<Rightarrow> world" real real elem_ref
  | ClearAll
  | RemoveNote elem_ref
  | UpdateNotePosition elem_ref real real

fun step :: "operation \<Rightarrow> generator \<Rightarrow> generator" where
  "step (Init c loaded) g = init c loaded g"
| "step (SetDebugMode b) g = setDebugMode b g"
| "step (FetchStart ws) g = snd (fetchFromAPIs_start ws g)"
| "step (FetchResume k i s ws) g = snd (fetchResume k i s ws g)"
| "step (FetchSettled r) g = refillSettled r g"
| "step (FetchDone ws) g = refillCache ws g"
| "step (GetRandomMessage ws u) g = snd (snd (getRandomMessage ws u g))"
| "step (GenerateNote ws u v ref) g = snd (snd (generateNote ws u v ref g))"
| "step ClearAll g = snd (clearAll g)"
| "step (RemoveNote ref) g = removeNote ref g"
| "step (UpdateNotePosition ref x y) g = updateNotePosition ref x y g"

fun run :: "operation list \<Rightarrow> generator \<Rightarrow> generator" where
  "run [] g = g"
| "run (op # ops) g = run ops (step op g)"

subsection \<open>Example states and worlds\<close>

text \<open>
  A generator after \<open>init\<close> with a local list of two one-letter messages, worlds in which
  the first remote source answers or no remote source does, a generator with a cache of two
  texts, the same with the cursor on the local source, a generator with three local
  messages, one whose local list starts with the empty string,
  generators on a surface of a given size, one of them with a note recorded at the point
  (20, 20), and streams of random draws.
\<close>

definition example_generator :: generator where
  "example_generator =
     init \<lparr>rect_width = 1280, rect_height = 720, children = []\<rparr> (Some [[0x61], [0x62]]) constructor"

definition hitokoto_up :: "nat \<Rightarrow> world" where
  "hitokoto_up i =
     \<lparr>hitokoto_answer = Some \<lparr>hitokoto = [0x68], from_field = None\<rparr>,
      jinrishici_answer = None, random_draw = 0\<rparr>"

definition remote_down :: "real \<Rightarrow> nat \<Rightarrow> world" where
  "remote_down u i = \<lparr>hitokoto_answer = None, jinrishici_answer = None, random_draw = u\<rparr>"

definition seeded_generator :: generator where
  "seeded_generator = example_generator\<lparr>hitokotoCache := [[0x78], [0x79]]\<rparr>"

definition three_message_generator :: generator where
  "three_message_generator =
     init \<lparr>rect_width = 1280, rect_height = 720, children = []\<rparr>
       (Some [[0x61], [0x62], [0x63]]) constructor"

definition local_first_generator :: generator where
  "local_first_generator = seeded_generator\<lparr>currentApiIndex := 2\<rparr>"

definition blank_first_generator :: generator where
  "blank_first_generator = example_generator\<lparr>messages := [[], [0x61]]\<rparr>"

definition sized_generator :: "real \<Rightarrow> real \<Rightarrow> generator" where
  "sized_generator w h =
     example_generator\<lparr>canvas := Some \<lparr>rect_width = w, rect_height = h, children = []\<rparr>\<rparr>"

definition constant_draws :: "real \<Rightarrow> nat \<Rightarrow> real" where
  "constant_draws u k = u"

definition crowded_draws :: "nat \<Rightarrow> real" where
  "crowded_draws k = (if k < 60 then 0 else 1 / 2)"

definition crowded_generator :: generator where
  "crowded_generator =
     (sized_generator 1000 800)
       \<lparr>notes_list := [\<lparr>note_x = 20, note_y = 20, note_element = 0\<rparr>], noteCount := 1\<rparr>"

definition example_run :: "operation list" where
  "example_run =
     [Init \<lparr>rect_width = 1280, rect_height = 720, children = []\<rparr> None,
      FetchDone hitokoto_up, FetchStart (remote_down 0),
      GenerateNote (remote_down 0) 0 0 7, GenerateNote hitokoto_up (1 / 2) 0 8, RemoveNote 7,
      UpdateNotePosition 8 1 2, ClearAll, GenerateNote hitokoto_up 0 0 9]"

section \<open>Properties of the quote aggregator\<close>

subsection \<open>Attribution lines\<close>

text \<open>
  C2, as the specification states it, fails twice: the attribution line that the code
  appends starts with two em dashes, not one, and the source jinrishici appends an author
  equal to the two-character placeholder, which only the source hitokoto excludes.
\<close>

theorem attribution_placeholder_counterexample:
  "fetchJinrishici (Some \<lparr>content = [0x61], author = Some wangluo\<rparr>)
     = Inr ([0x61] @ [nl, emdash, emdash, space] @ wangluo)
   \<and> fetchJinrishici (Some \<lparr>content = [0x61], author = Some wangluo\<rparr>) \<noteq> Inr [0x61]
   \<and> fetchHitokoto (Some \<lparr>hitokoto = [0x61], from_field = Some [0x62]\<rparr>)
     \<noteq> Inr ([0x61] @ spec_attribution_prefix @ [0x62])"
  by (simp add: fetchJinrishici_def fetchHitokoto_def wangluo_def attribution_prefix_def
      spec_attribution_prefix_def nl_def emdash_def space_def)

text \<open>
  C2, amended: a remote answer gets an attribution line (a line feed, two em dashes, a
  space, the author) appended if and only if the author field is present, is not the empty
  string and is shorter than the cap of its source, 15 for hitokoto and 10 for jinrishici,
  and, for hitokoto only, is not the two-character placeholder; otherwise the text is
  returned as it is. So an author at or above the cap is never appended, the placeholder is
  never appended by hitokoto, and an author of one character is always appended.
\<close>

theorem attribution_appended_iff:
  "(fetchHitokoto (Some d) = Inr (hitokoto d @ attribution_prefix @ f)
      \<longleftrightarrow> from_field d = Some f \<and> f \<noteq> [] \<and> f \<noteq> wangluo \<and> length f < 15)
   \<and> (fetchHitokoto (Some d) \<noteq> Inr (hitokoto d)
      \<longrightarrow> fetchHitokoto (Some d) = Inr (hitokoto d @ attribution_prefix @ the (from_field d)))
   \<and> (fetchJinrishici (Some e) = Inr (content e @ attribution_prefix @ a)
      \<longleftrightarrow> author e = Some a \<and> a \<noteq> [] \<and> length a < 10)
   \<and> (fetchJinrishici (Some e) \<noteq> Inr (content e)
      \<longrightarrow> fetchJinrishici (Some e) = Inr (content e @ attribution_prefix @ the (author e)))
   \<and> (from_field d = Some f \<and> length f = 1
      \<longrightarrow> fetchHitokoto (Some d) = Inr (hitokoto d @ attribution_prefix @ f))
   \<and> (author e = Some a \<and> length a = 1
      \<longrightarrow> fetchJinrishici (Some e) = Inr (content e @ attribution_prefix @ a))
   \<and> (from_field d = Some f \<and> (f = wangluo \<or> 15 \<le> length f)
      \<longrightarrow> fetchHitokoto (Some d) = Inr (hitokoto d))
   \<and> (author e = Some a \<and> 10 \<le> length a
      \<longrightarrow> fetchJinrishici (Some e) = Inr (content e))"
proof -
  have h: "fetchHitokoto (Some d) = Inr (hitokoto d @ attribution_prefix @ f)
      \<longleftrightarrow> from_field d = Some f \<and> f \<noteq> [] \<and> f \<noteq> wangluo \<and> length f < 15"
    by (cases "from_field d") (auto simp: fetchHitokoto_def attribution_prefix_def)
  have j: "fetchJinrishici (Some e) = Inr (content e @ attribution_prefix @ a)
      \<longleftrightarrow> author e = Some a \<and> a \<noteq> [] \<and> length a < 10"
    by (cases "author e") (auto simp: fetchJinrishici_def attribution_prefix_def)
  have h1: "from_field d = Some f \<and> length f = 1
      \<longrightarrow> fetchHitokoto (Some d) = Inr (hitokoto d @ attribution_prefix @ f)"
    by (auto simp: fetchHitokoto_def wangluo_def)
  have h2: "fetchHitokoto (Some d) \<noteq> Inr (hitokoto d)
      \<longrightarrow> fetchHitokoto (Some d) = Inr (hitokoto d @ attribution_prefix @ the (from_field d))"
    by (cases "from_field d") (auto simp: fetchHitokoto_def)
  have j2: "fetchJinrishici (Some e) \<noteq> Inr (content e)
      \<longrightarrow> fetchJinrishici (Some e) = Inr (content e @ attribution_prefix @ the (author e))"
    by (cases "author e") (auto simp: fetchJinrishici_def)
  have h3: "from_field d = Some f \<and> (f = wangluo \<or> 15 \<le> length f)
      \<longrightarrow> fetchHitokoto (Some d) = Inr (hitokoto d)"
    by (auto simp: fetchHitokoto_def)
  have j3: "author e = Some a \<and> 10 \<le> length a \<longrightarrow> fetchJinrishici (Some e) = Inr (content e)"
    by (auto simp: fetchJinrishici_def)
  have j1: "author e = Some a \<and> length a = 1
      \<longrightarrow> fetchJinrishici (Some e) = Inr (content e @ attribution_prefix @ a)"
    by (auto simp: fetchJinrishici_def)
  show ?thesis
    by (intro conjI) (rule h h2 j j2 h1 j1 h3 j3)+
qed

theorem attribution_appended_witness:
  "fetchHitokoto (Some \<lparr>hitokoto = [0x61], from_field = Some [0x62]\<rparr>)
     = Inr ([0x61] @ attribution_prefix @ [0x62])
   \<and> fetchJinrishici (Some \<lparr>content = [0x63], author = Some [0x64]\<rparr>)
     = Inr ([0x63] @ attribution_prefix @ [0x64])
   \<and> fetchHitokoto (Some \<lparr>hitokoto = [0x61], from_field = Some wangluo\<rparr>) = Inr [0x61]
   \<and> fetchJinrishici (Some \<lparr>content = [0x63], author = Some [1, 2, 3, 4, 5, 6, 7, 8, 9, 10]\<rparr>)
     = Inr [0x63]"
proof -
  note a = attribution_appended_iff [of "\<lparr>hitokoto = [0x61], from_field = Some [0x62]\<rparr>" "[0x62]"
      "\<lparr>content = [0x63], author = Some [0x64]\<rparr>" "[0x64]"]
  note b = attribution_appended_iff [of "\<lparr>hitokoto = [0x61], from_field = Some wangluo\<rparr>" wangluo
      "\<lparr>content = [0x63], author = Some [1, 2, 3, 4, 5, 6, 7, 8, 9, 10]\<rparr>"
      "[1, 2, 3, 4, 5, 6, 7, 8, 9, 10]"]
  have 1: "fetchHitokoto (Some \<lparr>hitokoto = [0x61], from_field = Some [0x62]\<rparr>)
     = Inr ([0x61] @ attribution_prefix @ [0x62])"
    using a [THEN conjunct2, THEN conjunct2, THEN conjunct2, THEN conjunct2, THEN conjunct1]
    by simp
  have 2: "fetchJinrishici (Some \<lparr>content = [0x63], author = Some [0x64]\<rparr>)
     = Inr ([0x63] @ attribution_prefix @ [0x64])"
    using a [THEN conjunct2, THEN conjunct2, THEN conjunct2, THEN conjunct2, THEN conjunct2,
        THEN conjunct1]
    by simp
  have 3: "fetchHitokoto (Some \<lparr>hitokoto = [0x61], from_field = Some wangluo\<rparr>) = Inr [0x61]"
    using b [THEN conjunct2, THEN conjunct2, THEN conjunct2, THEN conjunct2, THEN conjunct2,
        THEN conjunct2, THEN conjunct1]
    by simp
  have 4: "fetchJinrishici (Some \<lparr>content = [0x63], author = Some [1, 2, 3, 4, 5, 6, 7, 8, 9, 10]\<rparr>)
     = Inr [0x63]"
    using b [THEN conjunct2, THEN conjunct2, THEN conjunct2, THEN conjunct2, THEN conjunct2,
        THEN conjunct2, THEN conjunct2]
    by simp
  from 1 2 3 4 show ?thesis by (intro conjI)
qed

subsection \<open>What the aggregation leaves unchanged\<close>

lemma getLocalMessage_frame:
  "snd (getLocalMessage u g) = g \<or> snd (getLocalMessage u g) = g\<lparr>usedApiTexts := {}\<rparr>"
  by (simp add: getLocalMessage_def Let_def)

lemma fetchSource_frame:
  "snd (fetchSource s w g) = g \<or> snd (fetchSource s w g) = g\<lparr>usedApiTexts := {}\<rparr>"
  using getLocalMessage_frame [of "random_draw w" g]
  by (auto simp: fetchSource_def split: sum.splits prod.splits)

lemma fetchSource_frame_ex:
  "\<exists>U. snd (fetchSource s w g) = g\<lparr>usedApiTexts := U\<rparr>"
proof -
  have "g = g\<lparr>usedApiTexts := usedApiTexts g\<rparr>" by simp
  with fetchSource_frame [of s w g] show ?thesis by metis
qed

lemma fetchLoop_frame:
  "\<exists>c U. snd (fetchLoop k i ws g) = g\<lparr>currentApiIndex := c, usedApiTexts := U\<rparr>"
proof (induction k arbitrary: i g)
  case 0
  have "g = g\<lparr>currentApiIndex := currentApiIndex g, usedApiTexts := usedApiTexts g\<rparr>" by simp
  then show ?case by (metis fetchLoop.simps(1) snd_conv)
next
  case (Suc k)
  define g1 where "g1 = g\<lparr>currentApiIndex := (currentApiIndex g + 1) mod length (apiSources g)\<rparr>"
  have step: "\<exists>c U. snd (fetchLoop k j ws (g1\<lparr>usedApiTexts := V\<rparr>))
      = g\<lparr>currentApiIndex := c, usedApiTexts := U\<rparr>" for j V
  proof -
    obtain c U where "snd (fetchLoop k j ws (g1\<lparr>usedApiTexts := V\<rparr>))
        = (g1\<lparr>usedApiTexts := V\<rparr>)\<lparr>currentApiIndex := c, usedApiTexts := U\<rparr>"
      using Suc.IH by blast
    then have "snd (fetchLoop k j ws (g1\<lparr>usedApiTexts := V\<rparr>))
        = g\<lparr>currentApiIndex := c, usedApiTexts := U\<rparr>"
      by (simp add: g1_def)
    then show ?thesis by blast
  qed
  have here: "\<exists>c U. g1\<lparr>usedApiTexts := V\<rparr> = g\<lparr>currentApiIndex := c, usedApiTexts := U\<rparr>" for V
    by (auto simp: g1_def)
  show ?case
  proof (cases "js_nth (apiSources g) (int (currentApiIndex g))")
    case None
    then have "snd (fetchLoop (Suc k) i ws g) = g1\<lparr>usedApiTexts := usedApiTexts g\<rparr>"
      by (simp add: g1_def)
    with here show ?thesis by metis
  next
    case (Some s)
    show ?thesis
    proof (cases "src_enabled s")
      case False
      with Some have "snd (fetchLoop (Suc k) i ws g)
          = snd (fetchLoop k (Suc i) ws (g1\<lparr>usedApiTexts := usedApiTexts g\<rparr>))"
        by (simp add: g1_def)
      with step show ?thesis by metis
    next
      case True
      obtain r g2 where fs: "fetchSource s (ws i) g1 = (r, g2)" by fastforce
      obtain V where g2: "g2 = g1\<lparr>usedApiTexts := V\<rparr>"
        using fetchSource_frame_ex [of s "ws i" g1] fs by auto
      have "snd (fetchLoop (Suc k) i ws g) = snd (fetchLoop k (Suc i) ws g2)
          \<or> (\<exists>t. snd (fetchLoop (Suc k) i ws g) = g2\<lparr>usedApiTexts := insert t (usedApiTexts g2)\<rparr>)"
        using Some True fs [unfolded g1_def]
        by (auto simp: Let_def split: sum.splits option.splits)
      then show ?thesis
      proof
        assume "snd (fetchLoop (Suc k) i ws g) = snd (fetchLoop k (Suc i) ws g2)"
        with step g2 show ?thesis by metis
      next
        assume "\<exists>t. snd (fetchLoop (Suc k) i ws g) = g2\<lparr>usedApiTexts := insert t (usedApiTexts g2)\<rparr>"
        then obtain t where "snd (fetchLoop (Suc k) i ws g)
            = g1\<lparr>usedApiTexts := insert t V\<rparr>"
          by (auto simp: g2)
        with here show ?thesis by metis
      qed
    qed
  qed
qed

lemma fetchRun_frame:
  "\<exists>c U. snd (fetchRun k i ws g) = g\<lparr>currentApiIndex := c, usedApiTexts := U\<rparr>"
proof (induction k arbitrary: i g)
  case 0
  have "g = g\<lparr>currentApiIndex := currentApiIndex g, usedApiTexts := usedApiTexts g\<rparr>" by simp
  then show ?case by (metis fetchRun.simps(1) snd_conv)
next
  case (Suc k)
  define g1 where "g1 = g\<lparr>currentApiIndex := (currentApiIndex g + 1) mod length (apiSources g)\<rparr>"
  have step: "\<exists>c U. snd (fetchRun k j ws (g1\<lparr>usedApiTexts := V\<rparr>))
      = g\<lparr>currentApiIndex := c, usedApiTexts := U\<rparr>" for j V
  proof -
    obtain c U where "snd (fetchRun k j ws (g1\<lparr>usedApiTexts := V\<rparr>))
        = (g1\<lparr>usedApiTexts := V\<rparr>)\<lparr>currentApiIndex := c, usedApiTexts := U\<rparr>"
      using Suc.IH by blast
    then have "snd (fetchRun k j ws (g1\<lparr>usedApiTexts := V\<rparr>))
        = g\<lparr>currentApiIndex := c, usedApiTexts := U\<rparr>"
      by (simp add: g1_def)
    then show ?thesis by blast
  qed
  have here: "\<exists>c U. g1\<lparr>usedApiTexts := V\<rparr> = g\<lparr>currentApiIndex := c, usedApiTexts := U\<rparr>" for V
    by (auto simp: g1_def)
  have same: "g1 = g1\<lparr>usedApiTexts := usedApiTexts g\<rparr>" by (simp add: g1_def)
  show ?case
  proof (cases "js_nth (apiSources g) (int (currentApiIndex g))")
    case None
    then have "snd (fetchRun (Suc k) i ws g) = g1\<lparr>usedApiTexts := usedApiTexts g\<rparr>"
      by (simp add: g1_def)
    with here show ?thesis by metis
  next
    case (Some s)
    show ?thesis
    proof (cases "src_enabled s")
      case False
      with Some have "snd (fetchRun (Suc k) i ws g)
          = snd (fetchRun k (Suc i) ws (g1\<lparr>usedApiTexts := usedApiTexts g\<rparr>))"
        by (simp add: g1_def)
      with step show ?thesis by metis
    next
      case True
      show ?thesis
      proof (cases "src_name s = ''hitokoto'' \<or> src_name s = ''jinrishici''")
        case remote: True
        with Some True have "snd (fetchRun (Suc k) i ws g) = g1\<lparr>usedApiTexts := usedApiTexts g\<rparr>"
          by (auto simp: g1_def)
        with here show ?thesis by metis
      next
        case other: False
        obtain r g2 where fs: "fetchSource s (ws i) g1 = (r, g2)" by fastforce
        obtain V where g2: "g2 = g1\<lparr>usedApiTexts := V\<rparr>"
          using fetchSource_frame_ex [of s "ws i" g1] fs by auto
        have "snd (fetchRun (Suc k) i ws g) = snd (fetchRun k (Suc i) ws g2)
            \<or> (\<exists>t. snd (fetchRun (Suc k) i ws g) = g2\<lparr>usedApiTexts := insert t (usedApiTexts g2)\<rparr>)"
          using Some True other fs [unfolded g1_def]
          by (auto simp: Let_def split: sum.splits option.splits)
        then show ?thesis
        proof
          assume "snd (fetchRun (Suc k) i ws g) = snd (fetchRun k (Suc i) ws g2)"
          with step g2 show ?thesis by metis
        next
          assume "\<exists>t. snd (fetchRun (Suc k) i ws g) = g2\<lparr>usedApiTexts := insert t (usedApiTexts g2)\<rparr>"
          then obtain t where "snd (fetchRun (Suc k) i ws g)
              = g1\<lparr>usedApiTexts := insert t V\<rparr>"
            by (auto simp: g2)
          with here show ?thesis by metis
        qed
      qed
    qed
  qed
qed

lemma fetchFromAPIs_start_frame:
  "\<exists>c U. snd (fetchFromAPIs_start ws g) = g\<lparr>currentApiIndex := c, usedApiTexts := U\<rparr>"
  by (simp add: fetchFromAPIs_start_def fetchRun_frame)

lemma fetchResume_frame:
  "\<exists>c U. snd (fetchResume k i s ws g) = g\<lparr>currentApiIndex := c, usedApiTexts := U\<rparr>"
proof -
  obtain r g2 where fs: "fetchSource s (ws i) g = (r, g2)" by fastforce
  obtain V where g2: "g2 = g\<lparr>usedApiTexts := V\<rparr>"
    using fetchSource_frame_ex [of s "ws i" g] fs by auto
  have "snd (fetchResume k i s ws g) = snd (fetchRun k (Suc i) ws g2)
      \<or> (\<exists>t. snd (fetchResume k i s ws g) = g2\<lparr>usedApiTexts := insert t (usedApiTexts g2)\<rparr>)"
    using fs by (auto simp: fetchResume_def split: sum.splits option.splits)
  then show ?thesis
  proof
    assume a: "snd (fetchResume k i s ws g) = snd (fetchRun k (Suc i) ws g2)"
    obtain c U where "snd (fetchRun k (Suc i) ws g2) = g2\<lparr>currentApiIndex := c, usedApiTexts := U\<rparr>"
      using fetchRun_frame by blast
    with a have "snd (fetchResume k i s ws g) = g\<lparr>currentApiIndex := c, usedApiTexts := U\<rparr>"
      by (simp add: g2)
    then show ?thesis by blast
  next
    assume "\<exists>t. snd (fetchResume k i s ws g) = g2\<lparr>usedApiTexts := insert t (usedApiTexts g2)\<rparr>"
    then obtain t where "snd (fetchResume k i s ws g)
        = g\<lparr>currentApiIndex := currentApiIndex g, usedApiTexts := insert t V\<rparr>"
      by (auto simp: g2)
    then show ?thesis by blast
  qed
qed

text \<open>The steps of a fetch, taken with nothing in between, give the fetch run to completion.\<close>

lemma fetchRun_finish:
  "fetchFinish ws (fst (fetchRun k i ws g)) (snd (fetchRun k i ws g)) = fetchLoop k i ws g"
proof (induction k arbitrary: i g)
  case 0
  then show ?case by (simp add: fetchFinish_def)
next
  case (Suc k)
  show ?case
  proof (cases "js_nth (apiSources g) (int (currentApiIndex g))")
    case None
    then show ?thesis by (simp add: fetchFinish_def)
  next
    case (Some s)
    show ?thesis
    proof (cases "src_enabled s")
      case False
      with Some Suc.IH show ?thesis by (simp add: Let_def)
    next
      case True
      show ?thesis
      proof (cases "src_name s = ''hitokoto'' \<or> src_name s = ''jinrishici''")
        case remote: True
        with Some True show ?thesis by (auto simp: Let_def fetchFinish_def)
      next
        case other: False
        with Some True Suc.IH show ?thesis
          by (auto simp: Let_def fetchFinish_def split: sum.splits option.splits prod.splits)
      qed
    qed
  qed
qed

lemma fetchResume_finish:
  "fetchFinish ws (fst (fetchResume k i s ws g)) (snd (fetchResume k i s ws g))
     = fetchFinish ws (Awaiting k i s) g"
  by (auto simp: fetchResume_def fetchFinish_def fetchRun_finish [unfolded fetchFinish_def]
      split: sum.splits option.splits prod.splits)

lemma refillCache_alt:
  "refillCache ws g = refillSettled (fst (fetchFromAPIs ws g)) (snd (fetchFromAPIs ws g))"
  by (auto simp: refillCache_def refillSettled_def split: prod.splits sum.splits option.splits)

lemma refillFinish_start:
  "refillFinish ws (fst (fetchFromAPIs_start ws g)) (snd (fetchFromAPIs_start ws g))
     = refillCache ws g"
  by (simp add: refillFinish_def refillCache_alt fetchFromAPIs_start_def fetchFromAPIs_def
      fetchRun_finish split: prod.splits)

lemma fetchFromAPIs_frame:
  "\<exists>c U. snd (fetchFromAPIs ws g) = g\<lparr>currentApiIndex := c, usedApiTexts := U\<rparr>"
  by (simp add: fetchFromAPIs_def fetchLoop_frame)

lemma refillCache_frame:
  "\<exists>c U C. refillCache ws g = g\<lparr>currentApiIndex := c, usedApiTexts := U,
      hitokotoCache := hitokotoCache g @ C\<rparr>"
proof -
  obtain r g' where f: "fetchFromAPIs ws g = (r, g')" by fastforce
  obtain c U where g': "g' = g\<lparr>currentApiIndex := c, usedApiTexts := U\<rparr>"
    using fetchFromAPIs_frame [of ws g] f by auto
  have "refillCache ws g = g' \<or> (\<exists>t. refillCache ws g = g'\<lparr>hitokotoCache := hitokotoCache g' @ [t]\<rparr>)"
    using f by (auto simp: refillCache_def split: sum.splits option.splits)
  then show ?thesis
  proof
    assume "refillCache ws g = g'"
    then have "refillCache ws g = g\<lparr>currentApiIndex := c, usedApiTexts := U,
      hitokotoCache := hitokotoCache g @ []\<rparr>" by (simp add: g')
    then show ?thesis by blast
  next
    assume "\<exists>t. refillCache ws g = g'\<lparr>hitokotoCache := hitokotoCache g' @ [t]\<rparr>"
    then obtain t where "refillCache ws g = g\<lparr>currentApiIndex := c, usedApiTexts := U,
      hitokotoCache := hitokotoCache g @ [t]\<rparr>" by (auto simp: g')
    then show ?thesis by blast
  qed
qed

subsection \<open>The local pick\<close>

lemma js_nth_in_set: "js_nth xs i = Some x \<Longrightarrow> x \<in> set xs"
  by (auto simp: js_nth_def split: if_splits)

lemma js_nth_random_index:
  assumes "xs \<noteq> []" "0 \<le> u" "u < 1"
  shows "\<exists>x. js_nth xs (random_index u (length xs)) = Some x"
proof -
  have n: "0 < real (length xs)" using assms(1) by simp
  have "0 \<le> u * real (length xs)" using assms(2) by simp
  then have lo: "0 \<le> random_index u (length xs)" by (simp add: random_index_def)
  have "u * real (length xs) < real (length xs)" using assms(3) n by simp
  then have "\<lfloor>u * real (length xs)\<rfloor> < int (length xs)"
    by (simp add: floor_less_iff)
  then have hi: "random_index u (length xs) < int (length xs)" by (simp add: random_index_def)
  from lo hi show ?thesis by (simp add: js_nth_def)
qed

lemma getLocalMessage_Some:
  assumes "messages g \<noteq> []" "0 \<le> u" "u < 1"
  shows "\<exists>t. fst (getLocalMessage u g) = Some t"
proof (cases "filter (\<lambda>msg. msg \<notin> usedApiTexts g) (messages g) = []")
  case True
  then show ?thesis
    using js_nth_random_index [OF assms] by (simp add: getLocalMessage_def)
next
  case False
  then show ?thesis
    using js_nth_random_index [OF False assms(2,3)] by (simp add: getLocalMessage_def Let_def)
qed


lemma getLocalMessage_fresh:
  assumes "fst (getLocalMessage u g) = Some t" "\<not> set (messages g) \<subseteq> usedApiTexts g"
  shows "t \<notin> usedApiTexts g" "snd (getLocalMessage u g) = g"
proof -
  from assms(2) have ne: "filter (\<lambda>msg. msg \<notin> usedApiTexts g) (messages g) \<noteq> []"
    by (auto simp: filter_empty_conv)
  with assms(1) have "js_nth (filter (\<lambda>msg. msg \<notin> usedApiTexts g) (messages g))
      (random_index u (length (filter (\<lambda>msg. msg \<notin> usedApiTexts g) (messages g)))) = Some t"
    by (simp add: getLocalMessage_def Let_def)
  then have "t \<in> set (filter (\<lambda>msg. msg \<notin> usedApiTexts g) (messages g))"
    by (rule js_nth_in_set)
  then show "t \<notin> usedApiTexts g" by simp
  from ne show "snd (getLocalMessage u g) = g" by (simp add: getLocalMessage_def Let_def)
qed

lemma getLocalMessage_clears:
  "usedApiTexts (snd (getLocalMessage u g)) \<noteq> usedApiTexts g
   \<Longrightarrow> set (messages g) \<subseteq> usedApiTexts g \<and> usedApiTexts (snd (getLocalMessage u g)) = {}"
  by (auto simp: getLocalMessage_def Let_def filter_empty_conv split: if_splits)

lemma getRandomMessage_empty:
  "hitokotoCache g = [] \<Longrightarrow>
     getRandomMessage ws u g = (fst (getLocalMessage u g), None, snd (getLocalMessage u g))"
  by (simp add: getRandomMessage_def split: prod.splits)

lemma getRandomMessage_refill:
  "hitokotoCache g \<noteq> [] \<Longrightarrow> length (tl (hitokotoCache g)) < 3 \<Longrightarrow>
     getRandomMessage ws u g =
       (Some (hd (hitokotoCache g)),
        Some (fst (fetchFromAPIs_start ws (g\<lparr>hitokotoCache := tl (hitokotoCache g)\<rparr>))),
        snd (fetchFromAPIs_start ws (g\<lparr>hitokotoCache := tl (hitokotoCache g)\<rparr>)))"
  by (simp add: getRandomMessage_def Let_def split: prod.splits)

lemma getRandomMessage_no_refill:
  "hitokotoCache g \<noteq> [] \<Longrightarrow> \<not> length (tl (hitokotoCache g)) < 3 \<Longrightarrow>
     getRandomMessage ws u g =
       (Some (hd (hitokotoCache g)), None, g\<lparr>hitokotoCache := tl (hitokotoCache g)\<rparr>)"
  by (simp add: getRandomMessage_def Let_def)

lemma getRandomMessage_front:
  "hitokotoCache g \<noteq> [] \<Longrightarrow> fst (getRandomMessage ws u g) = Some (hd (hitokotoCache g))"
  by (cases "length (tl (hitokotoCache g)) < 3")
    (simp_all add: getRandomMessage_refill getRandomMessage_no_refill)

lemma getRandomMessage_cache:
  "hitokotoCache g \<noteq> [] \<Longrightarrow>
     hitokotoCache (snd (snd (getRandomMessage ws u g))) = tl (hitokotoCache g)"
proof (cases "length (tl (hitokotoCache g)) < 3")
  case True
  assume ne: "hitokotoCache g \<noteq> []"
  obtain c U where "snd (fetchFromAPIs_start ws (g\<lparr>hitokotoCache := tl (hitokotoCache g)\<rparr>))
      = (g\<lparr>hitokotoCache := tl (hitokotoCache g)\<rparr>)\<lparr>currentApiIndex := c, usedApiTexts := U\<rparr>"
    using fetchFromAPIs_start_frame by blast
  with ne True show ?thesis by (simp add: getRandomMessage_refill)
next
  case False
  assume "hitokotoCache g \<noteq> []"
  with False show ?thesis by (simp add: getRandomMessage_no_refill)
qed


lemma fetchLoop_recorded:
  "fetchLoop k i ws g = (Inr (Some t), g') \<Longrightarrow> t \<noteq> [] \<and> t \<in> usedApiTexts g'"
proof (induction k arbitrary: i g)
  case 0
  then show ?case by simp
next
  case (Suc k)
  show ?case
  proof (cases "js_nth (apiSources g) (int (currentApiIndex g))")
    case None
    with Suc.prems show ?thesis by simp
  next
    case (Some s)
    show ?thesis
    proof (cases "src_enabled s")
      case False
      with Some Suc.prems Suc.IH show ?thesis by (simp add: Let_def)
    next
      case True
      with Some Suc.prems Suc.IH show ?thesis
        by (auto simp: Let_def split: sum.splits option.splits prod.splits if_splits)
    qed
  qed
qed


subsection \<open>The prefetch cache\<close>

text \<open>
  C7: with a non-empty prefetch cache, getRandomMessage removes and returns the front item,
  and exactly when the cache is left with fewer than three items it starts a refill, whose
  fetch has run up to its first \<open>await\<close> when the text is returned; with three or more
  items left, or with an empty cache, it starts none. The refill that was started, run to
  its end, is a whole refill of the cache after the pop: when its fetch returns a text the
  text is appended at the back of the cache, and when the fetch throws or returns nothing
  the cache is left as it is and no failure comes out. A cache seeded with two items
  yields those two items, in order, on the first two calls, whether the refill started by
  the first call has completed in between or not.
\<close>

theorem cache_front_fifo:
  "(hitokotoCache g \<noteq> [] \<and> length (tl (hitokotoCache g)) < 3 \<longrightarrow>
      getRandomMessage ws u g =
        (Some (hd (hitokotoCache g)),
         Some (fst (fetchFromAPIs_start ws (g\<lparr>hitokotoCache := tl (hitokotoCache g)\<rparr>))),
         snd (fetchFromAPIs_start ws (g\<lparr>hitokotoCache := tl (hitokotoCache g)\<rparr>))))
   \<and> (hitokotoCache g \<noteq> [] \<and> \<not> length (tl (hitokotoCache g)) < 3 \<longrightarrow>
      getRandomMessage ws u g =
        (Some (hd (hitokotoCache g)), None, g\<lparr>hitokotoCache := tl (hitokotoCache g)\<rparr>))
   \<and> (hitokotoCache g = [] \<longrightarrow> fst (snd (getRandomMessage ws u g)) = None)
   \<and> (\<forall>refill. fst (snd (getRandomMessage ws u g)) = Some refill \<longrightarrow>
        refillFinish ws refill (snd (snd (getRandomMessage ws u g)))
          = refillCache ws (g\<lparr>hitokotoCache := tl (hitokotoCache g)\<rparr>))
   \<and> (\<forall>t. fst (fetchFromAPIs ws h) = Inr (Some t) \<longrightarrow>
        refillCache ws h
          = (snd (fetchFromAPIs ws h))\<lparr>hitokotoCache := hitokotoCache h @ [t]\<rparr>
        \<and> hitokotoCache (refillCache ws h) = hitokotoCache h @ [t])
   \<and> ((\<exists>e. fst (fetchFromAPIs ws h) = Inl e) \<or> fst (fetchFromAPIs ws h) = Inr None \<longrightarrow>
        refillCache ws h = snd (fetchFromAPIs ws h)
        \<and> hitokotoCache (refillCache ws h) = hitokotoCache h)
   \<and> (hitokotoCache g = [a, b] \<longrightarrow>
        fst (getRandomMessage ws u g) = Some a
        \<and> (\<exists>refill. fst (snd (getRandomMessage ws u g)) = Some refill
             \<and> fst (getRandomMessage ws' u' (snd (snd (getRandomMessage ws u g)))) = Some b
             \<and> fst (getRandomMessage ws' u'
                     (refillFinish ws refill (snd (snd (getRandomMessage ws u g))))) = Some b))"
proof -
  let ?g1 = "g\<lparr>hitokotoCache := tl (hitokotoCache g)\<rparr>"
  have 1: "hitokotoCache g \<noteq> [] \<and> length (tl (hitokotoCache g)) < 3 \<longrightarrow>
      getRandomMessage ws u g =
        (Some (hd (hitokotoCache g)), Some (fst (fetchFromAPIs_start ws ?g1)),
         snd (fetchFromAPIs_start ws ?g1))"
    by (simp add: getRandomMessage_refill)
  have 2: "hitokotoCache g \<noteq> [] \<and> \<not> length (tl (hitokotoCache g)) < 3 \<longrightarrow>
      getRandomMessage ws u g = (Some (hd (hitokotoCache g)), None, ?g1)"
    by (simp add: getRandomMessage_no_refill)
  have 3: "hitokotoCache g = [] \<longrightarrow> fst (snd (getRandomMessage ws u g)) = None"
    by (simp add: getRandomMessage_empty)
  have 4: "\<forall>refill. fst (snd (getRandomMessage ws u g)) = Some refill \<longrightarrow>
        refillFinish ws refill (snd (snd (getRandomMessage ws u g))) = refillCache ws ?g1"
  proof (intro allI impI)
    fix refill
    assume r: "fst (snd (getRandomMessage ws u g)) = Some refill"
    with 3 have ne: "hitokotoCache g \<noteq> []" by auto
    with r 2 have lt: "length (tl (hitokotoCache g)) < 3" by auto
    from r have "refill = fst (fetchFromAPIs_start ws ?g1)"
      by (simp add: getRandomMessage_refill [OF ne lt])
    then show "refillFinish ws refill (snd (snd (getRandomMessage ws u g))) = refillCache ws ?g1"
      by (simp add: getRandomMessage_refill [OF ne lt] refillFinish_start)
  qed
  obtain c U where fr: "snd (fetchFromAPIs ws h) = h\<lparr>currentApiIndex := c, usedApiTexts := U\<rparr>"
    using fetchFromAPIs_frame by blast
  have 5: "\<forall>t. fst (fetchFromAPIs ws h) = Inr (Some t) \<longrightarrow>
        refillCache ws h
          = (snd (fetchFromAPIs ws h))\<lparr>hitokotoCache := hitokotoCache h @ [t]\<rparr>
        \<and> hitokotoCache (refillCache ws h) = hitokotoCache h @ [t]"
  proof (intro allI impI)
    fix t
    assume t: "fst (fetchFromAPIs ws h) = Inr (Some t)"
    then have "fetchLoop (length (apiSources h)) 0 ws h = (Inr (Some t), snd (fetchFromAPIs ws h))"
      by (simp add: fetchFromAPIs_def prod_eq_iff)
    then have "t \<noteq> []" using fetchLoop_recorded by blast
    with t show "refillCache ws h
          = (snd (fetchFromAPIs ws h))\<lparr>hitokotoCache := hitokotoCache h @ [t]\<rparr>
        \<and> hitokotoCache (refillCache ws h) = hitokotoCache h @ [t]"
      by (simp add: refillCache_alt refillSettled_def fr)
  qed
  have 6: "(\<exists>e. fst (fetchFromAPIs ws h) = Inl e) \<or> fst (fetchFromAPIs ws h) = Inr None \<longrightarrow>
        refillCache ws h = snd (fetchFromAPIs ws h)
        \<and> hitokotoCache (refillCache ws h) = hitokotoCache h"
    by (auto simp: refillCache_alt refillSettled_def fr)
  have 7: "hitokotoCache g = [a, b] \<longrightarrow>
        fst (getRandomMessage ws u g) = Some a
        \<and> (\<exists>refill. fst (snd (getRandomMessage ws u g)) = Some refill
             \<and> fst (getRandomMessage ws' u' (snd (snd (getRandomMessage ws u g)))) = Some b
             \<and> fst (getRandomMessage ws' u'
                     (refillFinish ws refill (snd (snd (getRandomMessage ws u g))))) = Some b)"
  proof
    assume ab: "hitokotoCache g = [a, b]"
    then have ne: "hitokotoCache g \<noteq> []" and lt: "length (tl (hitokotoCache g)) < 3" by simp_all
    define refill where "refill = fst (fetchFromAPIs_start ws ?g1)"
    define g2 where "g2 = snd (fetchFromAPIs_start ws ?g1)"
    have first: "getRandomMessage ws u g = (Some a, Some refill, g2)"
      using ab by (simp add: getRandomMessage_refill [OF ne lt] refill_def g2_def)
    have c2: "hitokotoCache g2 = [b]"
      using getRandomMessage_cache [OF ne, of ws u] ab by (simp add: first)
    have "refillFinish ws refill g2 = refillCache ws ?g1"
      by (simp add: refill_def g2_def refillFinish_start)
    moreover obtain c U C where "refillCache ws ?g1 = ?g1\<lparr>currentApiIndex := c,
        usedApiTexts := U, hitokotoCache := hitokotoCache ?g1 @ C\<rparr>"
      using refillCache_frame by blast
    ultimately have c3: "hitokotoCache (refillFinish ws refill g2) = b # C"
      using ab by simp
    have "fst (getRandomMessage ws' u' g2) = Some b"
      using c2 by (simp add: getRandomMessage_front)
    moreover have "fst (getRandomMessage ws' u' (refillFinish ws refill g2)) = Some b"
      using c3 by (simp add: getRandomMessage_front)
    ultimately show "fst (getRandomMessage ws u g) = Some a
        \<and> (\<exists>refill. fst (snd (getRandomMessage ws u g)) = Some refill
             \<and> fst (getRandomMessage ws' u' (snd (snd (getRandomMessage ws u g)))) = Some b
             \<and> fst (getRandomMessage ws' u'
                     (refillFinish ws refill (snd (snd (getRandomMessage ws u g))))) = Some b)"
      by (simp add: first)
  qed
  show ?thesis
    by (intro conjI) (rule 1 2 3 4 5 6 7)+
qed

theorem cache_front_fifo_witness:
  "hitokotoCache seeded_generator = [[0x78], [0x79]]
   \<and> getRandomMessage hitokoto_up 0 seeded_generator
       = (Some [0x78],
          Some (Awaiting 2 0 \<lparr>src_name = ''hitokoto'',
             src_url = Some ''https://v1.hitokoto.cn/?c=a&c=b&c=d&c=h&c=i&c=k'',
             src_enabled = True\<rparr>),
          seeded_generator\<lparr>hitokotoCache := [[0x79]], currentApiIndex := 1\<rparr>)
   \<and> hitokotoCache (refillFinish hitokoto_up
          (the (fst (snd (getRandomMessage hitokoto_up 0 seeded_generator))))
          (snd (snd (getRandomMessage hitokoto_up 0 seeded_generator))))
       = [[0x79], [0x68]]
   \<and> getRandomMessage (remote_down 0) 0 local_first_generator
       = (Some [0x78], Some (Settled (Inr (Some [0x61]))),
          local_first_generator\<lparr>hitokotoCache := [[0x79]], currentApiIndex := 0,
            usedApiTexts := {[0x61]}\<rparr>)
   \<and> fst (getRandomMessage hitokoto_up 0
          (refillFinish hitokoto_up
             (the (fst (snd (getRandomMessage hitokoto_up 0 seeded_generator))))
             (snd (snd (getRandomMessage hitokoto_up 0 seeded_generator))))) = Some [0x79]
   \<and> fst (snd (getRandomMessage hitokoto_up 0 example_generator)) = None
   \<and> hitokotoCache (refillCache (remote_down 0) blank_first_generator) = []"
proof -
  let ?popped = "seeded_generator\<lparr>hitokotoCache := tl (hitokotoCache seeded_generator)\<rparr>"
  have c: "hitokotoCache seeded_generator = [[0x78], [0x79]]"
    by (simp add: seeded_generator_def)
  have e: "hitokotoCache example_generator = []"
    by (simp add: example_generator_def init_def constructor_def)
  have s: "fetchFromAPIs_start hitokoto_up ?popped
      = (Awaiting 2 0 \<lparr>src_name = ''hitokoto'',
             src_url = Some ''https://v1.hitokoto.cn/?c=a&c=b&c=d&c=h&c=i&c=k'',
             src_enabled = True\<rparr>,
         seeded_generator\<lparr>hitokotoCache := [[0x79]], currentApiIndex := 1\<rparr>)"
    by code_simp
  have l: "hitokotoCache local_first_generator = [[0x78], [0x79]]"
    by (simp add: local_first_generator_def seeded_generator_def)
  have sl: "fetchFromAPIs_start (remote_down 0)
        (local_first_generator\<lparr>hitokotoCache := tl (hitokotoCache local_first_generator)\<rparr>)
      = (Settled (Inr (Some [0x61])),
         local_first_generator\<lparr>hitokotoCache := [[0x79]], currentApiIndex := 0,
            usedApiTexts := {[0x61]}\<rparr>)"
    by code_simp
  have f: "fst (fetchFromAPIs hitokoto_up ?popped) = Inr (Some [0x68])"
    by code_simp
  have d: "fst (fetchFromAPIs (remote_down 0) blank_first_generator) = Inr None"
    by code_simp
  have b: "hitokotoCache blank_first_generator = []"
    by (simp add: blank_first_generator_def example_generator_def init_def constructor_def)
  note t = cache_front_fifo [of seeded_generator hitokoto_up 0 ?popped "[0x78]" "[0x79]"
      hitokoto_up 0]
  note tl = cache_front_fifo [of local_first_generator "remote_down 0" 0 blank_first_generator
      "[0x78]" "[0x79]" hitokoto_up 0]
  note te = cache_front_fifo [of example_generator hitokoto_up 0 blank_first_generator
      "[0x78]" "[0x79]" hitokoto_up 0]
  note c2 = conjunct2
  from t [THEN conjunct1] c s have 1: "getRandomMessage hitokoto_up 0 seeded_generator
       = (Some [0x78],
          Some (Awaiting 2 0 \<lparr>src_name = ''hitokoto'',
             src_url = Some ''https://v1.hitokoto.cn/?c=a&c=b&c=d&c=h&c=i&c=k'',
             src_enabled = True\<rparr>),
          seeded_generator\<lparr>hitokotoCache := [[0x79]], currentApiIndex := 1\<rparr>)"
    by simp
  from 1 have r: "fst (snd (getRandomMessage hitokoto_up 0 seeded_generator))
      = Some (the (fst (snd (getRandomMessage hitokoto_up 0 seeded_generator))))"
    by simp
  from t [THEN c2, THEN c2, THEN c2, THEN conjunct1] r have fin: "refillFinish hitokoto_up
          (the (fst (snd (getRandomMessage hitokoto_up 0 seeded_generator))))
          (snd (snd (getRandomMessage hitokoto_up 0 seeded_generator)))
       = refillCache hitokoto_up ?popped"
    by blast
  from t [THEN c2, THEN c2, THEN c2, THEN c2, THEN conjunct1] f
  have "hitokotoCache (refillCache hitokoto_up ?popped) = hitokotoCache ?popped @ [[0x68]]"
    by blast
  with fin c have 2: "hitokotoCache (refillFinish hitokoto_up
          (the (fst (snd (getRandomMessage hitokoto_up 0 seeded_generator))))
          (snd (snd (getRandomMessage hitokoto_up 0 seeded_generator))))
       = [[0x79], [0x68]]"
    by simp
  from tl [THEN conjunct1] l sl have 3: "getRandomMessage (remote_down 0) 0 local_first_generator
       = (Some [0x78], Some (Settled (Inr (Some [0x61]))),
          local_first_generator\<lparr>hitokotoCache := [[0x79]], currentApiIndex := 0,
            usedApiTexts := {[0x61]}\<rparr>)"
    by simp
  from t [THEN c2, THEN c2, THEN c2, THEN c2, THEN c2, THEN c2] c r
  have 4: "fst (getRandomMessage hitokoto_up 0
          (refillFinish hitokoto_up
             (the (fst (snd (getRandomMessage hitokoto_up 0 seeded_generator))))
             (snd (snd (getRandomMessage hitokoto_up 0 seeded_generator))))) = Some [0x79]"
    by auto
  from te [THEN c2, THEN c2, THEN conjunct1] e
  have 5: "fst (snd (getRandomMessage hitokoto_up 0 example_generator)) = None"
    by blast
  from tl [THEN c2, THEN c2, THEN c2, THEN c2, THEN c2, THEN conjunct1] d
  have "hitokotoCache (refillCache (remote_down 0) blank_first_generator)
      = hitokotoCache blank_first_generator"
    by blast
  with b have 6: "hitokotoCache (refillCache (remote_down 0) blank_first_generator) = []"
    by simp
  from c 1 2 3 4 5 6 show ?thesis by (intro conjI)
qed

subsection \<open>The empty cache\<close>




subsection \<open>The next quote never fails\<close>



subsection \<open>The seen-set\<close>

text \<open>
  What the aggregation does for the seen-set: while some local message is outside the
  seen-set, getLocalMessage returns only a text outside it and leaves it as it is; it
  clears the seen-set only when every local message is in it; and every text that
  fetchFromAPIs accepts is recorded in the seen-set.
\<close>

lemma seen_set_discipline:
  "(fst (getLocalMessage u g) = Some t \<and> \<not> set (messages g) \<subseteq> usedApiTexts g \<longrightarrow>
      t \<notin> usedApiTexts g \<and> snd (getLocalMessage u g) = g)
   \<and> (usedApiTexts (snd (getLocalMessage u g)) \<noteq> usedApiTexts g \<longrightarrow>
      set (messages g) \<subseteq> usedApiTexts g \<and> usedApiTexts (snd (getLocalMessage u g)) = {})
   \<and> (fst (fetchFromAPIs ws g) = Inr (Some t') \<longrightarrow>
      t' \<in> usedApiTexts (snd (fetchFromAPIs ws g)))"
proof -
  have 1: "fst (getLocalMessage u g) = Some t \<and> \<not> set (messages g) \<subseteq> usedApiTexts g \<longrightarrow>
      t \<notin> usedApiTexts g \<and> snd (getLocalMessage u g) = g"
    using getLocalMessage_fresh [of u g t] by blast
  have 2: "usedApiTexts (snd (getLocalMessage u g)) \<noteq> usedApiTexts g \<longrightarrow>
      set (messages g) \<subseteq> usedApiTexts g \<and> usedApiTexts (snd (getLocalMessage u g)) = {}"
    using getLocalMessage_clears [of u g] by blast
  have 3: "fst (fetchFromAPIs ws g) = Inr (Some t') \<longrightarrow>
      t' \<in> usedApiTexts (snd (fetchFromAPIs ws g))"
  proof
    assume "fst (fetchFromAPIs ws g) = Inr (Some t')"
    then have "fetchLoop (length (apiSources g)) 0 ws g
        = (Inr (Some t'), snd (fetchFromAPIs ws g))"
      by (simp add: fetchFromAPIs_def prod_eq_iff)
    then show "t' \<in> usedApiTexts (snd (fetchFromAPIs ws g))"
      using fetchLoop_recorded by blast
  qed
  show ?thesis
    by (intro conjI) (rule 1 2 3)+
qed

text \<open>
  C3: no two consecutive quotes dispensed are the same text of the local pool unless the
  pool has one message, every local text dispensed being recorded in the seen-set and left
  out of the next local pick. The code does not keep this: with an empty cache
  getRandomMessage returns the local pick without recording it. On a pool of three
  messages, an empty seen-set and the draw 0 twice, the first call returns the first
  message and leaves the seen-set empty, and the second call returns the same message
  again, with no reset in between. The sibling path does what the claim says: the same
  pick made through fetchFromAPIs is recorded, and the next local pick is another message.
\<close>

theorem unrecorded_pick_repeats:
  "messages three_message_generator = [[0x61], [0x62], [0x63]]
   \<and> hitokotoCache three_message_generator = []
   \<and> usedApiTexts three_message_generator = {}
   \<and> fst (getRandomMessage hitokoto_up 0 three_message_generator) = Some [0x61]
   \<and> usedApiTexts (snd (snd (getRandomMessage hitokoto_up 0 three_message_generator))) = {}
   \<and> fst (getRandomMessage hitokoto_up 0
          (snd (snd (getRandomMessage hitokoto_up 0 three_message_generator)))) = Some [0x61]
   \<and> fst (fetchFromAPIs (remote_down 0) three_message_generator) = Inr (Some [0x61])
   \<and> usedApiTexts (snd (fetchFromAPIs (remote_down 0) three_message_generator)) = {[0x61]}
   \<and> fst (getRandomMessage hitokoto_up 0
          (snd (fetchFromAPIs (remote_down 0) three_message_generator))) = Some [0x62]"
  by code_simp

section \<open>Properties of the placement engine\<close>

subsection \<open>The responsive scale\<close>

lemma heartScale_factor:
  "\<exists>factor. heartScale b = b * factor
     \<and> (b < 500 \<longrightarrow> factor = 0.025)
     \<and> (500 \<le> b \<and> b < 768 \<longrightarrow> factor = 0.028)
     \<and> (768 \<le> b \<and> b < 1024 \<longrightarrow> factor = 0.032)
     \<and> (1024 \<le> b \<longrightarrow> factor = 0.035)"
proof -
  consider "b < 500" | "500 \<le> b" "b < 768" | "768 \<le> b" "b < 1024" | "1024 \<le> b"
    by linarith
  then show ?thesis
  proof cases
    case 1
    then show ?thesis by (intro exI [of _ "0.025"]) (simp add: heartScale_def)
  next
    case 2
    then show ?thesis by (intro exI [of _ "0.028"]) (simp add: heartScale_def)
  next
    case 3
    then show ?thesis by (intro exI [of _ "0.032"]) (simp add: heartScale_def)
  next
    case 4
    then show ?thesis by (intro exI [of _ "0.035"]) (simp add: heartScale_def)
  qed
qed

lemma getHeartPosition_Some:
  assumes "canvas g = Some c" "totalNotes \<noteq> 0"
  shows "getHeartPosition index totalNotes g =
     Inr \<lparr>pos_x = rect_width c / 2
             + 16 * sin (index / totalNotes * pi * 2) ^ 3
               * heartScale (min (rect_width c) (rect_height c)) - 50,
          pos_y = rect_height c / 2
             + - (13 * cos (index / totalNotes * pi * 2)
                  - 5 * cos (2 * (index / totalNotes * pi * 2))
                  - 2 * cos (3 * (index / totalNotes * pi * 2))
                  - cos (4 * (index / totalNotes * pi * 2)))
               * heartScale (min (rect_width c) (rect_height c)) - 50\<rparr>"
  using assms by (simp add: getHeartPosition_def Let_def)

text \<open>
  C5: on every surface, the position that getHeartPosition returns is the curve scaled by
  the smaller of the surface's width and height times a factor, and the factor follows the
  breakpoints with their boundaries: 0.025 below 500 (so at 499), 0.028 from 500 on and
  below 768 (so at exactly 500), 0.032 from 768 on and below 1024, and 0.035 from 1024 on
  (so at exactly 1024 and above).
\<close>

theorem heart_scale_breakpoints:
  assumes "canvas g = Some c" "totalNotes \<noteq> 0"
  shows "\<exists>factor.
     getHeartPosition index totalNotes g =
       Inr \<lparr>pos_x = rect_width c / 2
               + 16 * sin (index / totalNotes * pi * 2) ^ 3
                 * (min (rect_width c) (rect_height c) * factor) - 50,
            pos_y = rect_height c / 2
               + - (13 * cos (index / totalNotes * pi * 2)
                    - 5 * cos (2 * (index / totalNotes * pi * 2))
                    - 2 * cos (3 * (index / totalNotes * pi * 2))
                    - cos (4 * (index / totalNotes * pi * 2)))
                 * (min (rect_width c) (rect_height c) * factor) - 50\<rparr>
     \<and> (min (rect_width c) (rect_height c) < 500 \<longrightarrow> factor = 0.025)
     \<and> (500 \<le> min (rect_width c) (rect_height c) \<and> min (rect_width c) (rect_height c) < 768
          \<longrightarrow> factor = 0.028)
     \<and> (768 \<le> min (rect_width c) (rect_height c) \<and> min (rect_width c) (rect_height c) < 1024
          \<longrightarrow> factor = 0.032)
     \<and> (1024 \<le> min (rect_width c) (rect_height c) \<longrightarrow> factor = 0.035)"
proof -
  obtain factor where f: "heartScale (min (rect_width c) (rect_height c))
       = min (rect_width c) (rect_height c) * factor"
     "min (rect_width c) (rect_height c) < 500 \<longrightarrow> factor = 0.025"
     "500 \<le> min (rect_width c) (rect_height c) \<and> min (rect_width c) (rect_height c) < 768
          \<longrightarrow> factor = 0.028"
     "768 \<le> min (rect_width c) (rect_height c) \<and> min (rect_width c) (rect_height c) < 1024
          \<longrightarrow> factor = 0.032"
     "1024 \<le> min (rect_width c) (rect_height c) \<longrightarrow> factor = 0.035"
    using heartScale_factor [of "min (rect_width c) (rect_height c)"] by blast
  show ?thesis
    using getHeartPosition_Some [OF assms, of index] f(2-5) unfolding f(1) by blast
qed

theorem heart_scale_breakpoints_witness:
  "getHeartPosition 0 50 (sized_generator 499 800)
     = Inr \<lparr>pos_x = 499 / 2 - 50, pos_y = 800 / 2 - 5 * (499 * 0.025) - 50\<rparr>
   \<and> getHeartPosition 0 50 (sized_generator 900 500)
     = Inr \<lparr>pos_x = 900 / 2 - 50, pos_y = 500 / 2 - 5 * (500 * 0.028) - 50\<rparr>
   \<and> getHeartPosition 0 50 (sized_generator 768 1023)
     = Inr \<lparr>pos_x = 768 / 2 - 50, pos_y = 1023 / 2 - 5 * (768 * 0.032) - 50\<rparr>
   \<and> getHeartPosition 0 50 (sized_generator 1024 2000)
     = Inr \<lparr>pos_x = 1024 / 2 - 50, pos_y = 2000 / 2 - 5 * (1024 * 0.035) - 50\<rparr>"
proof -
  have c: "canvas (sized_generator w h) = Some \<lparr>rect_width = w, rect_height = h, children = []\<rparr>"
    for w h by (simp add: sized_generator_def)
  have n: "(50::real) \<noteq> 0" by simp
  have 1: "getHeartPosition 0 50 (sized_generator 499 800)
     = Inr \<lparr>pos_x = 499 / 2 - 50, pos_y = 800 / 2 - 5 * (499 * 0.025) - 50\<rparr>"
    using heart_scale_breakpoints [OF c [of 499 800] n, of 0] by (elim exE conjE) simp
  have 2: "getHeartPosition 0 50 (sized_generator 900 500)
     = Inr \<lparr>pos_x = 900 / 2 - 50, pos_y = 500 / 2 - 5 * (500 * 0.028) - 50\<rparr>"
    using heart_scale_breakpoints [OF c [of 900 500] n, of 0] by (elim exE conjE) simp
  have 3: "getHeartPosition 0 50 (sized_generator 768 1023)
     = Inr \<lparr>pos_x = 768 / 2 - 50, pos_y = 1023 / 2 - 5 * (768 * 0.032) - 50\<rparr>"
    using heart_scale_breakpoints [OF c [of 768 1023] n, of 0] by (elim exE conjE) simp
  have 4: "getHeartPosition 0 50 (sized_generator 1024 2000)
     = Inr \<lparr>pos_x = 1024 / 2 - 50, pos_y = 2000 / 2 - 5 * (1024 * 0.035) - 50\<rparr>"
    using heart_scale_breakpoints [OF c [of 1024 2000] n, of 0] by (elim exE conjE) simp
  from 1 2 3 4 show ?thesis by (intro conjI)
qed

subsection \<open>The curve closes\<close>

lemma cos_multiples: "cos (2 * (2 * pi)) = 1" "cos (3 * (2 * pi)) = 1" "cos (4 * (2 * pi)) = 1"
  using cos_int_2pin [of 2] cos_int_2pin [of 3] cos_int_2pin [of 4]
  by (simp_all add: mult.commute)

text \<open>
  C8: for every \<open>N > 0\<close> and every surface, getHeartPosition gives the same position for
  index \<open>N\<close> as for index \<open>0\<close>, the angle of the one being a full turn after the angle of the
  other; it is the point of the curve straight above the centre.
\<close>

theorem heart_closes:
  assumes "canvas g = Some c" "0 < N"
  shows "getHeartPosition N N g = getHeartPosition 0 N g
     \<and> getHeartPosition 0 N g =
         Inr \<lparr>pos_x = rect_width c / 2 - 50,
              pos_y = rect_height c / 2
                - 5 * heartScale (min (rect_width c) (rect_height c)) - 50\<rparr>"
proof -
  from assms(2) have n: "N \<noteq> 0" by simp
  then have a: "N / N * pi * 2 = 2 * pi" by simp
  have "getHeartPosition N N g =
         Inr \<lparr>pos_x = rect_width c / 2 - 50,
              pos_y = rect_height c / 2
                - 5 * heartScale (min (rect_width c) (rect_height c)) - 50\<rparr>"
    unfolding getHeartPosition_Some [OF assms(1) n] a cos_multiples by simp
  moreover have "getHeartPosition 0 N g =
         Inr \<lparr>pos_x = rect_width c / 2 - 50,
              pos_y = rect_height c / 2
                - 5 * heartScale (min (rect_width c) (rect_height c)) - 50\<rparr>"
    unfolding getHeartPosition_Some [OF assms(1) n] by simp
  ultimately show ?thesis by simp
qed

theorem heart_closes_witness:
  "canvas (sized_generator 1280 720)
     = Some \<lparr>rect_width = 1280, rect_height = 720, children = []\<rparr>
   \<and> (0::real) < 50
   \<and> getHeartPosition 50 50 (sized_generator 1280 720)
     = getHeartPosition 0 50 (sized_generator 1280 720)
   \<and> getHeartPosition 0 50 (sized_generator 1280 720)
     = Inr \<lparr>pos_x = 590, pos_y = 1046 / 5\<rparr>"
proof -
  have c: "canvas (sized_generator 1280 720)
     = Some \<lparr>rect_width = 1280, rect_height = 720, children = []\<rparr>"
    by (simp add: sized_generator_def)
  have n: "(0::real) < 50" by simp
  from heart_closes [OF c n] c n show ?thesis
    by (simp add: heartScale_def)
qed

subsection \<open>Random placement\<close>

lemma tooClose_iff:
  "\<not> tooClose ns x y \<longleftrightarrow>
     (\<forall>n\<in>set ns. 160 \<le> sqrt ((note_x n - x) * (note_x n - x) + (note_y n - y) * (note_y n - y)))"
  by (auto simp: tooClose_def list_ex_iff Let_def not_less)

lemma randomPositionLoop_cases:
  "a \<le> 30 \<Longrightarrow>
   (\<exists>k. a \<le> k \<and> k < 30
        \<and> randomPositionLoop a rnd c ns nw nh = samplePoint rnd (2 * k) c nw nh
        \<and> \<not> tooClose ns (pos_x (samplePoint rnd (2 * k) c nw nh))
                          (pos_y (samplePoint rnd (2 * k) c nw nh))
        \<and> (\<forall>j. a \<le> j \<and> j < k \<longrightarrow>
               tooClose ns (pos_x (samplePoint rnd (2 * j) c nw nh))
                           (pos_y (samplePoint rnd (2 * j) c nw nh))))
   \<or> (randomPositionLoop a rnd c ns nw nh = samplePoint rnd 60 c nw nh
        \<and> (\<forall>j. a \<le> j \<and> j < 30 \<longrightarrow>
               tooClose ns (pos_x (samplePoint rnd (2 * j) c nw nh))
                           (pos_y (samplePoint rnd (2 * j) c nw nh))))"
proof (induction a rnd c ns nw nh rule: randomPositionLoop.induct)
  case (1 attempts rnd c ns nw nh)
  let ?p = "\<lambda>k. samplePoint rnd (2 * k) c nw nh"
  let ?close = "\<lambda>k. tooClose ns (pos_x (?p k)) (pos_y (?p k))"
  show ?case
  proof (cases "attempts < 30")
    case False
    with "1.prems" have "attempts = 30" by simp
    then have "randomPositionLoop attempts rnd c ns nw nh = samplePoint rnd 60 c nw nh"
      by (simp add: randomPositionLoop.simps [of 30])
    with \<open>attempts = 30\<close> show ?thesis by auto
  next
    case True
    show ?thesis
    proof (cases "?close attempts")
      case False
      with True have "randomPositionLoop attempts rnd c ns nw nh = ?p attempts"
        by (simp add: randomPositionLoop.simps [of attempts] Let_def)
      with True False show ?thesis by auto
    next
      case close: True
      with True have eq: "randomPositionLoop attempts rnd c ns nw nh
          = randomPositionLoop (attempts + 1) rnd c ns nw nh"
        by (simp add: randomPositionLoop.simps [of attempts] Let_def)
      from True have le: "attempts + 1 \<le> 30" by simp
      have IH: "(\<exists>k. attempts + 1 \<le> k \<and> k < 30
            \<and> randomPositionLoop (attempts + 1) rnd c ns nw nh = ?p k
            \<and> \<not> ?close k \<and> (\<forall>j. attempts + 1 \<le> j \<and> j < k \<longrightarrow> ?close j))
          \<or> (randomPositionLoop (attempts + 1) rnd c ns nw nh = samplePoint rnd 60 c nw nh
            \<and> (\<forall>j. attempts + 1 \<le> j \<and> j < 30 \<longrightarrow> ?close j))"
        using "1.IH" [OF True refl _ le] close by simp
      have ext: "?close j" if "attempts \<le> j" "attempts + 1 \<le> j \<longrightarrow> ?close j" for j
        using that close by (cases "j = attempts") auto
      from IH show ?thesis
      proof
        assume "\<exists>k. attempts + 1 \<le> k \<and> k < 30
            \<and> randomPositionLoop (attempts + 1) rnd c ns nw nh = ?p k
            \<and> \<not> ?close k \<and> (\<forall>j. attempts + 1 \<le> j \<and> j < k \<longrightarrow> ?close j)"
        then obtain k where k: "attempts + 1 \<le> k" "k < 30"
            "randomPositionLoop (attempts + 1) rnd c ns nw nh = ?p k"
            "\<not> ?close k" "\<forall>j. attempts + 1 \<le> j \<and> j < k \<longrightarrow> ?close j"
          by blast
        have "\<forall>j. attempts \<le> j \<and> j < k \<longrightarrow> ?close j"
          using k(5) ext by blast
        with k eq have "attempts \<le> k \<and> k < 30
            \<and> randomPositionLoop attempts rnd c ns nw nh = ?p k
            \<and> \<not> ?close k \<and> (\<forall>j. attempts \<le> j \<and> j < k \<longrightarrow> ?close j)"
          by simp
        then show ?thesis by blast
      next
        assume a: "randomPositionLoop (attempts + 1) rnd c ns nw nh = samplePoint rnd 60 c nw nh
            \<and> (\<forall>j. attempts + 1 \<le> j \<and> j < 30 \<longrightarrow> ?close j)"
        have "\<forall>j. attempts \<le> j \<and> j < 30 \<longrightarrow> ?close j"
          using a ext by blast
        with a eq show ?thesis by simp
      qed
    qed
  qed
qed

lemma samplePoint_bounds:
  assumes "0 \<le> rnd k" "rnd k < 1" "0 \<le> rnd (k + 1)" "rnd (k + 1) < 1"
    "nw + 2 * 20 \<le> rect_width c" "nh + 2 * 20 \<le> rect_height c"
  shows "20 \<le> pos_x (samplePoint rnd k c nw nh)"
    "pos_x (samplePoint rnd k c nw nh) \<le> 20 + (rect_width c - nw - 2 * 20)"
    "20 \<le> pos_y (samplePoint rnd k c nw nh)"
    "pos_y (samplePoint rnd k c nw nh) \<le> 20 + (rect_height c - nh - 2 * 20)"
proof -
  have w: "0 \<le> rect_width c - nw - 20 * 2" and h: "0 \<le> rect_height c - nh - 20 * 2"
    using assms(5,6) by simp_all
  have "0 \<le> rnd k * (rect_width c - nw - 20 * 2)"
    using assms(1) w by (rule mult_nonneg_nonneg)
  then show "20 \<le> pos_x (samplePoint rnd k c nw nh)" by (simp add: samplePoint_def)
  have "rnd k * (rect_width c - nw - 20 * 2) \<le> 1 * (rect_width c - nw - 20 * 2)"
    using assms(2) w by (intro mult_right_mono) simp_all
  then show "pos_x (samplePoint rnd k c nw nh) \<le> 20 + (rect_width c - nw - 2 * 20)"
    by (simp add: samplePoint_def)
  have "0 \<le> rnd (k + 1) * (rect_height c - nh - 20 * 2)"
    using assms(3) h by (rule mult_nonneg_nonneg)
  then show "20 \<le> pos_y (samplePoint rnd k c nw nh)" by (simp add: samplePoint_def)
  have "rnd (k + 1) * (rect_height c - nh - 20 * 2) \<le> 1 * (rect_height c - nh - 20 * 2)"
    using assms(4) h by (intro mult_right_mono) simp_all
  then show "pos_y (samplePoint rnd k c nw nh) \<le> 20 + (rect_height c - nh - 2 * 20)"
    by (simp add: samplePoint_def)
qed

lemma crowded_sample:
  "k < 30 \<Longrightarrow> samplePoint crowded_draws (2 * k) c nw nh = \<lparr>pos_x = 20, pos_y = 20\<rparr>"
  by (simp add: samplePoint_def crowded_draws_def)

text \<open>
  C4, as the specification states it, fails on a surface that is smaller than the note plus
  its two paddings: there the interval of the claim is empty, and the coordinate returned
  lies below the padding.
\<close>

theorem random_position_bounds_counterexample:
  "getRandomPosition (constant_draws (1 / 2)) 100 100 (sized_generator 100 100)
     = Inr \<lparr>pos_x = 0, pos_y = 0\<rparr>
   \<and> (0::real) \<notin> {20 .. 20 + (100 - 100 - 2 * 20)}"
  by (simp add: getRandomPosition_def sized_generator_def example_generator_def init_def
      constructor_def randomPositionLoop.simps [of 0] samplePoint_def constant_draws_def
      tooClose_def)

text \<open>
  C4, amended: a point that getRandomPosition accepts within its 30 attempts is the first
  sample at a distance of at least 160 from the recorded position of every note placed
  before; if none of the 30 attempts succeeds, the function samples one point more and
  returns it as it is; and provided the draws lie in the unit interval and the surface is
  at least the note's width plus twice the padding wide, and as much for the height, the
  coordinate returned lies within the padded bounds, \<open>x\<close> in
  \<open>[padding, padding + width - noteWidth - 2 * padding]\<close> and \<open>y\<close> alike, with a padding
  of 20.
\<close>

theorem random_position_spaced:
  assumes "canvas g = Some c"
  shows "\<exists>p. getRandomPosition rnd nw nh g = Inr p
     \<and> ((\<exists>k<30. p = samplePoint rnd (2 * k) c nw nh
            \<and> (\<forall>n\<in>set (notes_list g).
                 160 \<le> sqrt ((note_x n - pos_x p) * (note_x n - pos_x p)
                             + (note_y n - pos_y p) * (note_y n - pos_y p)))
            \<and> (\<forall>j<k. tooClose (notes_list g) (pos_x (samplePoint rnd (2 * j) c nw nh))
                                               (pos_y (samplePoint rnd (2 * j) c nw nh))))
        \<or> (p = samplePoint rnd 60 c nw nh
            \<and> (\<forall>j<30. tooClose (notes_list g) (pos_x (samplePoint rnd (2 * j) c nw nh))
                                                (pos_y (samplePoint rnd (2 * j) c nw nh)))))
     \<and> ((\<forall>k. 0 \<le> rnd k \<and> rnd k < 1)
          \<and> nw + 2 * 20 \<le> rect_width c \<and> nh + 2 * 20 \<le> rect_height c
        \<longrightarrow> 20 \<le> pos_x p \<and> pos_x p \<le> 20 + (rect_width c - nw - 2 * 20)
          \<and> 20 \<le> pos_y p \<and> pos_y p \<le> 20 + (rect_height c - nh - 2 * 20))"
proof -
  define p where "p = randomPositionLoop 0 rnd c (notes_list g) nw nh"
  have r: "getRandomPosition rnd nw nh g = Inr p"
    using assms by (simp add: getRandomPosition_def p_def)
  let ?s = "\<lambda>k. samplePoint rnd (2 * k) c nw nh"
  let ?close = "\<lambda>k. tooClose (notes_list g) (pos_x (?s k)) (pos_y (?s k))"
  have cases: "(\<exists>k. k < 30 \<and> p = ?s k \<and> \<not> ?close k \<and> (\<forall>j. j < k \<longrightarrow> ?close j))
      \<or> (p = samplePoint rnd 60 c nw nh \<and> (\<forall>j. j < 30 \<longrightarrow> ?close j))"
    using randomPositionLoop_cases [of 0 rnd c "notes_list g" nw nh] by (simp add: p_def)
  have shape: "(\<exists>k<30. p = ?s k
            \<and> (\<forall>n\<in>set (notes_list g).
                 160 \<le> sqrt ((note_x n - pos_x p) * (note_x n - pos_x p)
                             + (note_y n - pos_y p) * (note_y n - pos_y p)))
            \<and> (\<forall>j<k. ?close j))
        \<or> (p = samplePoint rnd 60 c nw nh \<and> (\<forall>j<30. ?close j))"
    using cases
  proof
    assume "\<exists>k. k < 30 \<and> p = ?s k \<and> \<not> ?close k \<and> (\<forall>j. j < k \<longrightarrow> ?close j)"
    then obtain k where k: "k < 30" "p = ?s k" "\<not> ?close k" "\<forall>j. j < k \<longrightarrow> ?close j"
      by blast
    from k(3) have "\<forall>n\<in>set (notes_list g).
                 160 \<le> sqrt ((note_x n - pos_x p) * (note_x n - pos_x p)
                             + (note_y n - pos_y p) * (note_y n - pos_y p))"
      unfolding tooClose_iff k(2) [symmetric] .
    with k show ?thesis by blast
  next
    assume "p = samplePoint rnd 60 c nw nh \<and> (\<forall>j. j < 30 \<longrightarrow> ?close j)"
    then show ?thesis by blast
  qed
  have bounds: "20 \<le> pos_x p \<and> pos_x p \<le> 20 + (rect_width c - nw - 2 * 20)
          \<and> 20 \<le> pos_y p \<and> pos_y p \<le> 20 + (rect_height c - nh - 2 * 20)"
    if h: "(\<forall>k. 0 \<le> rnd k \<and> rnd k < 1)
          \<and> nw + 2 * 20 \<le> rect_width c \<and> nh + 2 * 20 \<le> rect_height c"
  proof -
    from cases obtain k where "p = samplePoint rnd k c nw nh" by blast
    with samplePoint_bounds [of rnd k nw c nh] h show ?thesis by simp
  qed
  from r shape bounds show ?thesis by blast
qed

theorem random_position_spaced_witness:
  "canvas crowded_generator = Some \<lparr>rect_width = 1000, rect_height = 800, children = []\<rparr>
   \<and> (\<forall>k. 0 \<le> crowded_draws k \<and> crowded_draws k < 1)
   \<and> getRandomPosition crowded_draws 100 100 crowded_generator
       = Inr \<lparr>pos_x = 450, pos_y = 350\<rparr>
   \<and> (20::real) \<le> 450 \<and> (450::real) \<le> 20 + (1000 - 100 - 2 * 20)
   \<and> (20::real) \<le> 350 \<and> (350::real) \<le> 20 + (800 - 100 - 2 * 20)"
proof -
  let ?c = "\<lparr>rect_width = 1000, rect_height = 800, children = []\<rparr>"
  have c: "canvas crowded_generator = Some ?c"
    by (simp add: crowded_generator_def sized_generator_def)
  have d: "\<forall>k. 0 \<le> crowded_draws k \<and> crowded_draws k < 1"
    by (simp add: crowded_draws_def)
  have ns: "notes_list crowded_generator = [\<lparr>note_x = 20, note_y = 20, note_element = 0\<rparr>]"
    by (simp add: crowded_generator_def)
  from random_position_spaced [OF c, of crowded_draws 100 100]
  obtain p where r: "getRandomPosition crowded_draws 100 100 crowded_generator = Inr p"
    and shape: "(\<exists>k<30. p = samplePoint crowded_draws (2 * k) ?c 100 100
            \<and> (\<forall>n\<in>set (notes_list crowded_generator).
                 160 \<le> sqrt ((note_x n - pos_x p) * (note_x n - pos_x p)
                             + (note_y n - pos_y p) * (note_y n - pos_y p)))
            \<and> (\<forall>j<k. tooClose (notes_list crowded_generator)
                         (pos_x (samplePoint crowded_draws (2 * j) ?c 100 100))
                         (pos_y (samplePoint crowded_draws (2 * j) ?c 100 100))))
        \<or> (p = samplePoint crowded_draws 60 ?c 100 100
            \<and> (\<forall>j<30. tooClose (notes_list crowded_generator)
                         (pos_x (samplePoint crowded_draws (2 * j) ?c 100 100))
                         (pos_y (samplePoint crowded_draws (2 * j) ?c 100 100))))"
    by blast
  have "\<not> (\<exists>k<30. p = samplePoint crowded_draws (2 * k) ?c 100 100
            \<and> (\<forall>n\<in>set (notes_list crowded_generator).
                 160 \<le> sqrt ((note_x n - pos_x p) * (note_x n - pos_x p)
                             + (note_y n - pos_y p) * (note_y n - pos_y p)))
            \<and> (\<forall>j<k. tooClose (notes_list crowded_generator)
                         (pos_x (samplePoint crowded_draws (2 * j) ?c 100 100))
                         (pos_y (samplePoint crowded_draws (2 * j) ?c 100 100))))"
    by (auto simp: ns crowded_sample)
  with shape have "p = samplePoint crowded_draws 60 ?c 100 100" by blast
  then have "p = \<lparr>pos_x = 450, pos_y = 350\<rparr>"
    by (simp add: samplePoint_def crowded_draws_def)
  with r c d show ?thesis by simp
qed

section \<open>Properties of the note records\<close>

subsection \<open>Auxiliary facts\<close>

lemma getRandomMessage_total:
  assumes "messages h \<noteq> []" "0 \<le> u" "u < 1"
  shows "\<exists>t. fst (getRandomMessage ws u h) = Some t"
proof (cases "hitokotoCache h = []")
  case True
  then show ?thesis
    using getLocalMessage_Some [OF assms] by (simp add: getRandomMessage_empty)
next
  case False
  then show ?thesis by (simp add: getRandomMessage_front)
qed

lemma findIndex_bounds: "- 1 \<le> findIndex P xs \<and> findIndex P xs < int (length xs)"
  by (induction xs) (auto simp: Let_def)

lemma findIndex_none: "findIndex P xs = - 1 \<longleftrightarrow> (\<forall>x\<in>set xs. \<not> P x)"
proof (induction xs)
  case Nil
  then show ?case by simp
next
  case (Cons a xs)
  have "findIndex P xs + 1 \<noteq> - 1" using findIndex_bounds [of P xs] by linarith
  with Cons show ?case by (auto simp: Let_def)
qed

lemma findIndex_first:
  "findIndex P xs \<noteq> - 1 \<Longrightarrow>
     nat (findIndex P xs) < length xs \<and> P (xs ! nat (findIndex P xs))
     \<and> (\<forall>j<nat (findIndex P xs). \<not> P (xs ! j))"
proof (induction xs)
  case Nil
  then show ?case by simp
next
  case (Cons a xs)
  show ?case
  proof (cases "P a")
    case True
    then show ?thesis by simp
  next
    case False
    with Cons.prems have r: "findIndex P xs \<noteq> - 1"
      by (auto simp: Let_def split: if_splits)
    with findIndex_bounds [of P xs] have nn: "0 \<le> findIndex P xs" by linarith
    from False r have f: "findIndex P (a # xs) = findIndex P xs + 1" by (simp add: Let_def)
    from nn have n: "nat (findIndex P xs + 1) = Suc (nat (findIndex P xs))" by simp
    from Cons.IH [OF r] False show ?thesis
      unfolding f n by (auto simp: less_Suc_eq_0_disj)
  qed
qed

lemma getRandomMessage_notes:
  "notes_list (snd (snd (getRandomMessage ws u g))) = notes_list g
   \<and> noteCount (snd (snd (getRandomMessage ws u g))) = noteCount g
   \<and> canvas (snd (snd (getRandomMessage ws u g))) = canvas g
   \<and> messages (snd (snd (getRandomMessage ws u g))) = messages g"
proof (cases "hitokotoCache g = []")
  case True
  with getLocalMessage_frame [of u g] show ?thesis
    by (auto simp: getRandomMessage_empty)
next
  case False
  show ?thesis
  proof (cases "length (tl (hitokotoCache g)) < 3")
    case True
    obtain c U where "snd (fetchFromAPIs_start ws (g\<lparr>hitokotoCache := tl (hitokotoCache g)\<rparr>))
        = (g\<lparr>hitokotoCache := tl (hitokotoCache g)\<rparr>)\<lparr>currentApiIndex := c, usedApiTexts := U\<rparr>"
      using fetchFromAPIs_start_frame by blast
    with False True show ?thesis by (simp add: getRandomMessage_refill)
  next
    case no: False
    with False show ?thesis by (simp add: getRandomMessage_no_refill)
  qed
qed

lemma refillSettled_notes:
  "notes_list (refillSettled r g) = notes_list g \<and> noteCount (refillSettled r g) = noteCount g
   \<and> canvas (refillSettled r g) = canvas g \<and> messages (refillSettled r g) = messages g"
  by (simp add: refillSettled_def split: sum.splits option.splits)

lemma awaitRandomMessage_cases:
  "fst (awaitRandomMessage ws u g) = fst (getRandomMessage ws u g)
   \<and> (snd (snd (awaitRandomMessage ws u g)) = snd (snd (getRandomMessage ws u g))
      \<or> (\<exists>r. snd (snd (awaitRandomMessage ws u g))
               = refillSettled r (snd (snd (getRandomMessage ws u g)))))"
proof -
  obtain t p g1 where m: "getRandomMessage ws u g = (t, p, g1)"
    by (metis prod_cases3)
  show ?thesis
  proof (cases p)
    case None
    with m show ?thesis by (simp add: awaitRandomMessage_def)
  next
    case (Some fs)
    with m show ?thesis by (cases fs) (auto simp: awaitRandomMessage_def)
  qed
qed

lemma awaitRandomMessage_notes:
  "notes_list (snd (snd (awaitRandomMessage ws u g))) = notes_list g
   \<and> noteCount (snd (snd (awaitRandomMessage ws u g))) = noteCount g
   \<and> canvas (snd (snd (awaitRandomMessage ws u g))) = canvas g
   \<and> messages (snd (snd (awaitRandomMessage ws u g))) = messages g"
  using awaitRandomMessage_cases [of ws u g] getRandomMessage_notes [of ws u g]
    refillSettled_notes [of _ "snd (snd (getRandomMessage ws u g))"]
  by auto

lemma fetchStep_notes:
  "notes_list (snd (fetchFromAPIs_start ws g)) = notes_list g
   \<and> noteCount (snd (fetchFromAPIs_start ws g)) = noteCount g"
  "notes_list (snd (fetchResume k i s ws g)) = notes_list g
   \<and> noteCount (snd (fetchResume k i s ws g)) = noteCount g"
proof -
  obtain c U where "snd (fetchFromAPIs_start ws g) = g\<lparr>currentApiIndex := c, usedApiTexts := U\<rparr>"
    using fetchFromAPIs_start_frame by blast
  then show "notes_list (snd (fetchFromAPIs_start ws g)) = notes_list g
   \<and> noteCount (snd (fetchFromAPIs_start ws g)) = noteCount g" by simp
  obtain c' U' where "snd (fetchResume k i s ws g) = g\<lparr>currentApiIndex := c', usedApiTexts := U'\<rparr>"
    using fetchResume_frame by blast
  then show "notes_list (snd (fetchResume k i s ws g)) = notes_list g
   \<and> noteCount (snd (fetchResume k i s ws g)) = noteCount g" by simp
qed

lemma refillCache_notes:
  "notes_list (refillCache ws g) = notes_list g \<and> noteCount (refillCache ws g) = noteCount g"
proof -
  obtain c U C where "refillCache ws g = g\<lparr>currentApiIndex := c, usedApiTexts := U,
      hitokotoCache := hitokotoCache g @ C\<rparr>"
    using refillCache_frame by blast
  then show ?thesis by simp
qed

lemma generateNote_cases:
  "(\<exists>e. fst (generateNote ws u v ref g) = Inl e
        \<and> notes_list (snd (snd (generateNote ws u v ref g))) = notes_list g
        \<and> noteCount (snd (snd (generateNote ws u v ref g))) = noteCount g)
   \<or> (\<exists>el n. fst (generateNote ws u v ref g) = Inr el \<and> elem_id el = ref \<and> note_element n = ref
        \<and> notes_list (snd (snd (generateNote ws u v ref g))) = notes_list g @ [n]
        \<and> noteCount (snd (snd (generateNote ws u v ref g))) = noteCount g + 1)"
proof -
  obtain t r g1 where m: "awaitRandomMessage ws u g = (t, r, g1)"
    by (metis prod_cases3)
  have fr: "notes_list g1 = notes_list g" "noteCount g1 = noteCount g"
    using awaitRandomMessage_notes [of ws u g] m by simp_all
  show ?thesis
  proof (cases t)
    case None
    with m fr show ?thesis by (simp add: generateNote_def)
  next
    case (Some message)
    show ?thesis
    proof (cases "getHeartPosition (of_int (noteCount g1)) 50 g1")
      case (Inl e)
      with m Some fr show ?thesis by (simp add: generateNote_def Let_def)
    next
      case (Inr position)
      with m Some fr show ?thesis by (simp add: generateNote_def Let_def)
    qed
  qed
qed

lemma generateNote_succeeds:
  assumes "canvas g = Some c" "messages g \<noteq> []" "0 \<le> u" "u < 1"
  shows "\<exists>el. fst (generateNote ws u v ref g) = Inr el"
proof -
  obtain t r g1 where m: "awaitRandomMessage ws u g = (t, r, g1)"
    by (metis prod_cases3)
  from getRandomMessage_total [OF assms(2-4), of ws] awaitRandomMessage_cases [of ws u g] m
  obtain message where t: "t = Some message" by auto
  have "canvas g1 = Some c" using awaitRandomMessage_notes [of ws u g] m assms(1) by simp
  then obtain position where "getHeartPosition (of_int (noteCount g1)) 50 g1 = Inr position"
    by (simp add: getHeartPosition_def Let_def)
  with m t show ?thesis by (simp add: generateNote_def Let_def)
qed

lemma removeNote_found:
  assumes "\<exists>n\<in>set (notes_list g). note_element n = ref"
  shows "\<exists>i<length (notes_list g). note_element (notes_list g ! i) = ref
      \<and> (\<forall>j<i. note_element (notes_list g ! j) \<noteq> ref)
      \<and> notes_list (removeNote ref g) = take i (notes_list g) @ drop (Suc i) (notes_list g)
      \<and> noteCount (removeNote ref g) = noteCount g - 1"
proof -
  let ?i = "findIndex (\<lambda>n. note_element n = ref) (notes_list g)"
  from assms have ne: "?i \<noteq> - 1" by (simp add: findIndex_none)
  from findIndex_first [OF ne] have "nat ?i < length (notes_list g)"
    "note_element (notes_list g ! nat ?i) = ref"
    "\<forall>j<nat ?i. note_element (notes_list g ! j) \<noteq> ref" by simp_all
  moreover from ne have "notes_list (removeNote ref g)
      = take (nat ?i) (notes_list g) @ drop (Suc (nat ?i)) (notes_list g)"
    "noteCount (removeNote ref g) = noteCount g - 1"
    by (simp_all add: removeNote_def Let_def)
  ultimately show ?thesis by blast
qed

lemma removeNote_absent:
  "\<forall>n\<in>set (notes_list g). note_element n \<noteq> ref \<Longrightarrow> removeNote ref g = g"
  using findIndex_none [of "\<lambda>n. note_element n = ref" "notes_list g"]
  by (simp add: removeNote_def Let_def)

lemma updateNotePosition_found:
  assumes "\<exists>n\<in>set (notes_list g). note_element n = ref"
  shows "\<exists>i<length (notes_list g). note_element (notes_list g ! i) = ref
      \<and> (\<forall>j<i. note_element (notes_list g ! j) \<noteq> ref)
      \<and> updateNotePosition ref x y g =
          g\<lparr>notes_list := (notes_list g)
               [i := \<lparr>note_x = x, note_y = y, note_element = ref\<rparr>]\<rparr>"
proof -
  let ?i = "findIndex (\<lambda>n. note_element n = ref) (notes_list g)"
  from assms have ne: "?i \<noteq> - 1" by (simp add: findIndex_none)
  from findIndex_first [OF ne] have i: "nat ?i < length (notes_list g)"
    "note_element (notes_list g ! nat ?i) = ref"
    "\<forall>j<nat ?i. note_element (notes_list g ! j) \<noteq> ref" by simp_all
  have "(notes_list g ! nat ?i)\<lparr>note_x := x, note_y := y\<rparr>
      = \<lparr>note_x = x, note_y = y, note_element = ref\<rparr>"
    using i(2) by (cases "notes_list g ! nat ?i") simp
  with ne have "updateNotePosition ref x y g =
          g\<lparr>notes_list := (notes_list g)
               [nat ?i := \<lparr>note_x = x, note_y = y, note_element = ref\<rparr>]\<rparr>"
    by (simp add: updateNotePosition_def Let_def)
  with i show ?thesis by blast
qed

lemma updateNotePosition_absent:
  "\<forall>n\<in>set (notes_list g). note_element n \<noteq> ref \<Longrightarrow> updateNotePosition ref x y g = g"
  using findIndex_none [of "\<lambda>n. note_element n = ref" "notes_list g"]
  by (simp add: updateNotePosition_def Let_def)

lemma updateNotePosition_notes:
  "\<exists>ns. updateNotePosition ref x y g = g\<lparr>notes_list := ns\<rparr> \<and> length ns = length (notes_list g)
     \<and> map note_element ns = map note_element (notes_list g)
     \<and> (\<forall>j<length (notes_list g). note_element (notes_list g ! j) \<noteq> ref
          \<longrightarrow> ns ! j = notes_list g ! j)"
proof (cases "\<exists>n\<in>set (notes_list g). note_element n = ref")
  case True
  from updateNotePosition_found [OF True, of x y]
  obtain i where i: "i < length (notes_list g)" "note_element (notes_list g ! i) = ref"
    "updateNotePosition ref x y g =
          g\<lparr>notes_list := (notes_list g)
               [i := \<lparr>note_x = x, note_y = y, note_element = ref\<rparr>]\<rparr>"
    by blast
  have "map note_element ((notes_list g) [i := \<lparr>note_x = x, note_y = y, note_element = ref\<rparr>])
      = map note_element (notes_list g)"
    using i(1,2) by (simp add: map_update list_update_same_conv)
  moreover have "\<forall>j<length (notes_list g). note_element (notes_list g ! j) \<noteq> ref
          \<longrightarrow> (notes_list g) [i := \<lparr>note_x = x, note_y = y, note_element = ref\<rparr>] ! j
             = notes_list g ! j"
  proof (intro allI impI)
    fix j
    assume "j < length (notes_list g)" and "note_element (notes_list g ! j) \<noteq> ref"
    with i(2) have "i \<noteq> j" by auto
    then show "(notes_list g) [i := \<lparr>note_x = x, note_y = y, note_element = ref\<rparr>] ! j
             = notes_list g ! j"
      by simp
  qed
  ultimately show ?thesis using i(3) by auto
next
  case False
  then have "updateNotePosition ref x y g = g" by (simp add: updateNotePosition_absent)
  then have "updateNotePosition ref x y g = g\<lparr>notes_list := notes_list g\<rparr>" by simp
  then show ?thesis by blast
qed

lemma clearAll_cases:
  "(fst (clearAll g) = Inl TypeError \<and> canvas g = None \<and> snd (clearAll g) = g)
   \<or> (fst (clearAll g) = Inr () \<and> canvas g \<noteq> None
       \<and> notes_list (snd (clearAll g)) = [] \<and> noteCount (snd (clearAll g)) = 0)"
  by (cases "canvas g") (simp_all add: clearAll_def)

lemma step_invariant:
  assumes "noteCount g = int (length (notes_list g))"
  shows "noteCount (step op g) = int (length (notes_list (step op g)))"
proof (cases op)
  case (Init c loaded)
  with assms show ?thesis by (simp add: init_def)
next
  case (SetDebugMode b)
  with assms show ?thesis by (simp add: setDebugMode_def)
next
  case (FetchStart ws)
  with assms fetchStep_notes(1) [of ws g] show ?thesis by simp
next
  case (FetchResume k i s ws)
  with assms fetchStep_notes(2) [of k i s ws g] show ?thesis by simp
next
  case (FetchSettled r)
  with assms refillSettled_notes [of r g] show ?thesis by simp
next
  case (FetchDone ws)
  with assms refillCache_notes [of ws g] show ?thesis by simp
next
  case (GetRandomMessage ws u)
  with assms getRandomMessage_notes [of ws u g] show ?thesis by simp
next
  case (GenerateNote ws u v ref)
  with assms generateNote_cases [of ws u v ref g] show ?thesis by auto
next
  case ClearAll
  with assms clearAll_cases [of g] show ?thesis by auto
next
  case (RemoveNote ref)
  show ?thesis
  proof (cases "\<exists>n\<in>set (notes_list g). note_element n = ref")
    case True
    from removeNote_found [OF True] obtain i where i: "i < length (notes_list g)"
      "notes_list (removeNote ref g) = take i (notes_list g) @ drop (Suc i) (notes_list g)"
      "noteCount (removeNote ref g) = noteCount g - 1" by blast
    from i(1) have "int (length (take i (notes_list g) @ drop (Suc i) (notes_list g)))
        = int (length (notes_list g)) - 1" by auto
    with i assms RemoveNote show ?thesis by simp
  next
    case False
    with assms RemoveNote show ?thesis by (simp add: removeNote_absent)
  qed
next
  case (UpdateNotePosition ref x y)
  from updateNotePosition_notes [of ref x y g] obtain ns
    where "updateNotePosition ref x y g = g\<lparr>notes_list := ns\<rparr>" "length ns = length (notes_list g)"
    by blast
  with assms UpdateNotePosition show ?thesis by simp
qed

lemma run_invariant:
  "noteCount g = int (length (notes_list g))
   \<Longrightarrow> noteCount (run ops g) = int (length (notes_list (run ops g)))"
  by (induction ops arbitrary: g) (simp_all add: step_invariant)

subsection \<open>The count of notes\<close>

text \<open>
  C9: the note count equals the length of the list of notes in a new generator, every
  operation of the generator preserves that, and so \<open>getCount\<close> is the number of recorded
  notes after every run of operations. generateNote, which completes whenever the canvas is
  set, the local list is not empty and the draw lies in the unit interval, appends one
  record and adds one to the count, and leaves both alone when it throws; removeNote takes
  one record out and subtracts one from the count exactly when a record holds the element,
  and changes nothing otherwise; clearAll empties the list and sets the count to zero (on a
  generator without canvas it throws first and changes nothing).
\<close>

theorem note_count_invariant:
  "getCount constructor = int (length (notes_list constructor))
   \<and> (getCount g = int (length (notes_list g))
        \<longrightarrow> getCount (step op g) = int (length (notes_list (step op g))))
   \<and> getCount (run ops constructor) = int (length (notes_list (run ops constructor)))
   \<and> (canvas g \<noteq> None \<and> messages g \<noteq> [] \<and> 0 \<le> u \<and> u < 1
        \<longrightarrow> (\<exists>el n. fst (generateNote ws u v ref g) = Inr el \<and> note_element n = ref
              \<and> notes_list (snd (snd (generateNote ws u v ref g))) = notes_list g @ [n]
              \<and> getCount (snd (snd (generateNote ws u v ref g))) = getCount g + 1))
   \<and> ((\<exists>e. fst (generateNote ws u v ref g) = Inl e)
        \<longrightarrow> notes_list (snd (snd (generateNote ws u v ref g))) = notes_list g
          \<and> getCount (snd (snd (generateNote ws u v ref g))) = getCount g)
   \<and> ((\<exists>n\<in>set (notes_list g). note_element n = ref)
        \<longrightarrow> (\<exists>i<length (notes_list g). note_element (notes_list g ! i) = ref
              \<and> notes_list (removeNote ref g)
                  = take i (notes_list g) @ drop (Suc i) (notes_list g)
              \<and> length (notes_list (removeNote ref g)) + 1 = length (notes_list g)
              \<and> getCount (removeNote ref g) = getCount g - 1))
   \<and> ((\<forall>n\<in>set (notes_list g). note_element n \<noteq> ref) \<longrightarrow> removeNote ref g = g)
   \<and> (canvas g \<noteq> None
        \<longrightarrow> fst (clearAll g) = Inr () \<and> notes_list (snd (clearAll g)) = []
          \<and> getCount (snd (clearAll g)) = 0)
   \<and> (canvas g = None \<longrightarrow> snd (clearAll g) = g)"
proof -
  have 1: "getCount constructor = int (length (notes_list constructor))"
    by (simp add: getCount_def constructor_def)
  have 2: "getCount g = int (length (notes_list g))
        \<longrightarrow> getCount (step op g) = int (length (notes_list (step op g)))"
    using step_invariant [of g op] by (simp add: getCount_def)
  have 3: "getCount (run ops constructor) = int (length (notes_list (run ops constructor)))"
    using 1 run_invariant [of constructor ops] by (simp add: getCount_def)
  have 4: "canvas g \<noteq> None \<and> messages g \<noteq> [] \<and> 0 \<le> u \<and> u < 1
        \<longrightarrow> (\<exists>el n. fst (generateNote ws u v ref g) = Inr el \<and> note_element n = ref
              \<and> notes_list (snd (snd (generateNote ws u v ref g))) = notes_list g @ [n]
              \<and> getCount (snd (snd (generateNote ws u v ref g))) = getCount g + 1)"
  proof
    assume a: "canvas g \<noteq> None \<and> messages g \<noteq> [] \<and> 0 \<le> u \<and> u < 1"
    then obtain c where "canvas g = Some c" by auto
    with a generateNote_succeeds [of g c u ws v ref]
    obtain el where "fst (generateNote ws u v ref g) = Inr el" by auto
    with generateNote_cases [of ws u v ref g]
    show "\<exists>el n. fst (generateNote ws u v ref g) = Inr el \<and> note_element n = ref
              \<and> notes_list (snd (snd (generateNote ws u v ref g))) = notes_list g @ [n]
              \<and> getCount (snd (snd (generateNote ws u v ref g))) = getCount g + 1"
      by (auto simp: getCount_def)
  qed
  have 5: "(\<exists>e. fst (generateNote ws u v ref g) = Inl e)
        \<longrightarrow> notes_list (snd (snd (generateNote ws u v ref g))) = notes_list g
          \<and> getCount (snd (snd (generateNote ws u v ref g))) = getCount g"
    using generateNote_cases [of ws u v ref g] by (auto simp: getCount_def)
  have 6: "(\<exists>n\<in>set (notes_list g). note_element n = ref)
        \<longrightarrow> (\<exists>i<length (notes_list g). note_element (notes_list g ! i) = ref
              \<and> notes_list (removeNote ref g)
                  = take i (notes_list g) @ drop (Suc i) (notes_list g)
              \<and> length (notes_list (removeNote ref g)) + 1 = length (notes_list g)
              \<and> getCount (removeNote ref g) = getCount g - 1)"
  proof
    assume "\<exists>n\<in>set (notes_list g). note_element n = ref"
    from removeNote_found [OF this] obtain i where i: "i < length (notes_list g)"
      "note_element (notes_list g ! i) = ref"
      "notes_list (removeNote ref g) = take i (notes_list g) @ drop (Suc i) (notes_list g)"
      "noteCount (removeNote ref g) = noteCount g - 1" by blast
    from i(1) have "length (take i (notes_list g) @ drop (Suc i) (notes_list g)) + 1
        = length (notes_list g)" by auto
    with i show "\<exists>i<length (notes_list g). note_element (notes_list g ! i) = ref
              \<and> notes_list (removeNote ref g)
                  = take i (notes_list g) @ drop (Suc i) (notes_list g)
              \<and> length (notes_list (removeNote ref g)) + 1 = length (notes_list g)
              \<and> getCount (removeNote ref g) = getCount g - 1"
      unfolding getCount_def by metis
  qed
  have 7: "(\<forall>n\<in>set (notes_list g). note_element n \<noteq> ref) \<longrightarrow> removeNote ref g = g"
    using removeNote_absent [of g ref] by blast
  have 8: "canvas g \<noteq> None
        \<longrightarrow> fst (clearAll g) = Inr () \<and> notes_list (snd (clearAll g)) = []
          \<and> getCount (snd (clearAll g)) = 0"
    using clearAll_cases [of g] by (auto simp: getCount_def)
  have 9: "canvas g = None \<longrightarrow> snd (clearAll g) = g"
    using clearAll_cases [of g] by auto
  show ?thesis
    by (intro conjI) (rule 1 2 3 4 5 6 7 8 9)+
qed

theorem note_count_invariant_witness:
  "getCount (run example_run constructor)
     = int (length (notes_list (run example_run constructor)))
   \<and> (\<exists>el n. fst (generateNote hitokoto_up (1 / 2) 0 8 crowded_generator) = Inr el \<and> note_element n = 8
        \<and> notes_list (snd (snd (generateNote hitokoto_up (1 / 2) 0 8 crowded_generator)))
            = notes_list crowded_generator @ [n]
        \<and> getCount (snd (snd (generateNote hitokoto_up (1 / 2) 0 8 crowded_generator))) = 2)
   \<and> notes_list (snd (snd (generateNote hitokoto_up 0 0 7 constructor))) = []
   \<and> getCount (snd (snd (generateNote hitokoto_up 0 0 7 constructor))) = 0
   \<and> notes_list (removeNote 0 crowded_generator) = []
   \<and> getCount (removeNote 0 crowded_generator) = 0
   \<and> removeNote 5 crowded_generator = crowded_generator
   \<and> notes_list (snd (clearAll crowded_generator)) = []
   \<and> getCount (snd (clearAll crowded_generator)) = 0
   \<and> snd (clearAll constructor) = constructor"
proof -
  have c: "canvas crowded_generator \<noteq> None"
    by (simp add: crowded_generator_def sized_generator_def)
  have m: "messages crowded_generator \<noteq> []"
    by (simp add: crowded_generator_def sized_generator_def example_generator_def init_def)
  have ns: "notes_list crowded_generator = [\<lparr>note_x = 20, note_y = 20, note_element = 0\<rparr>]"
    by (simp add: crowded_generator_def)
  have k: "getCount crowded_generator = 1"
    by (simp add: crowded_generator_def getCount_def)
  have e: "\<exists>e. fst (generateNote hitokoto_up 0 0 7 constructor) = Inl e"
    by (simp add: generateNote_def awaitRandomMessage_def getRandomMessage_def
        getLocalMessage_def constructor_def js_nth_def random_index_def)
  have n0: "canvas constructor = None" "notes_list constructor = []" "getCount constructor = 0"
    by (simp_all add: constructor_def getCount_def)
  note t = note_count_invariant [of crowded_generator "ClearAll" example_run "1 / 2" hitokoto_up 0 8]
  note t0 = note_count_invariant [of constructor "ClearAll" example_run 0 hitokoto_up 0 7]
  note r0 = note_count_invariant [of crowded_generator "ClearAll" example_run 0 hitokoto_up 0 0]
  note r5 = note_count_invariant [of crowded_generator "ClearAll" example_run 0 hitokoto_up 0 5]
  have 1: "getCount (run example_run constructor)
     = int (length (notes_list (run example_run constructor)))"
    using t by blast
  have 2: "\<exists>el n. fst (generateNote hitokoto_up (1 / 2) 0 8 crowded_generator) = Inr el \<and> note_element n = 8
        \<and> notes_list (snd (snd (generateNote hitokoto_up (1 / 2) 0 8 crowded_generator)))
            = notes_list crowded_generator @ [n]
        \<and> getCount (snd (snd (generateNote hitokoto_up (1 / 2) 0 8 crowded_generator))) = 2"
    using t c m k by simp
  have 3: "notes_list (snd (snd (generateNote hitokoto_up 0 0 7 constructor))) = []
      \<and> getCount (snd (snd (generateNote hitokoto_up 0 0 7 constructor))) = 0"
    using t0 e n0 by simp
  have 4: "notes_list (removeNote 0 crowded_generator) = []
      \<and> getCount (removeNote 0 crowded_generator) = 0"
    using r0 ns k by auto
  have 5: "removeNote 5 crowded_generator = crowded_generator"
    using r5 ns by simp
  have 6: "notes_list (snd (clearAll crowded_generator)) = []
      \<and> getCount (snd (clearAll crowded_generator)) = 0"
    using t c by blast
  have 7: "snd (clearAll constructor) = constructor"
    using t0 n0 by blast
  from 1 2 3 4 5 6 7 show ?thesis by blast
qed

subsection \<open>Moving a note\<close>

text \<open>
  C10: updateNotePosition changes nothing but the list of notes, and in it only the
  coordinates of the first record that holds the given element: that record keeps its
  element, every record with another element and the length of the list stay as they are,
  and so do the note count, the message cache, the seen-set and the other fields of the
  generator. When no record holds the element, the whole state is unchanged.
\<close>

theorem update_note_position_frame:
  "((\<forall>n\<in>set (notes_list g). note_element n \<noteq> ref) \<longrightarrow> updateNotePosition ref x y g = g)
   \<and> ((\<exists>n\<in>set (notes_list g). note_element n = ref) \<longrightarrow>
        (\<exists>i<length (notes_list g).
            note_element (notes_list g ! i) = ref
          \<and> (\<forall>j<i. note_element (notes_list g ! j) \<noteq> ref)
          \<and> updateNotePosition ref x y g =
              g\<lparr>notes_list := (notes_list g)
                   [i := \<lparr>note_x = x, note_y = y, note_element = ref\<rparr>]\<rparr>))
   \<and> (\<exists>ns. updateNotePosition ref x y g = g\<lparr>notes_list := ns\<rparr>
        \<and> length ns = length (notes_list g)
        \<and> map note_element ns = map note_element (notes_list g)
        \<and> (\<forall>j<length (notes_list g). note_element (notes_list g ! j) \<noteq> ref
             \<longrightarrow> ns ! j = notes_list g ! j))
   \<and> noteCount (updateNotePosition ref x y g) = noteCount g
   \<and> hitokotoCache (updateNotePosition ref x y g) = hitokotoCache g
   \<and> usedApiTexts (updateNotePosition ref x y g) = usedApiTexts g
   \<and> usedMessages (updateNotePosition ref x y g) = usedMessages g
   \<and> messages (updateNotePosition ref x y g) = messages g
   \<and> canvas (updateNotePosition ref x y g) = canvas g
   \<and> currentApiIndex (updateNotePosition ref x y g) = currentApiIndex g"
proof -
  have 1: "(\<forall>n\<in>set (notes_list g). note_element n \<noteq> ref) \<longrightarrow> updateNotePosition ref x y g = g"
    using updateNotePosition_absent [of g ref x y] by blast
  have 2: "(\<exists>n\<in>set (notes_list g). note_element n = ref) \<longrightarrow>
        (\<exists>i<length (notes_list g).
            note_element (notes_list g ! i) = ref
          \<and> (\<forall>j<i. note_element (notes_list g ! j) \<noteq> ref)
          \<and> updateNotePosition ref x y g =
              g\<lparr>notes_list := (notes_list g)
                   [i := \<lparr>note_x = x, note_y = y, note_element = ref\<rparr>]\<rparr>)"
    using updateNotePosition_found [of g ref x y] by blast
  note 3 = updateNotePosition_notes [of ref x y g]
  from 3 obtain ns where ns: "updateNotePosition ref x y g = g\<lparr>notes_list := ns\<rparr>" by blast
  have 4: "noteCount (updateNotePosition ref x y g) = noteCount g"
    and 5: "hitokotoCache (updateNotePosition ref x y g) = hitokotoCache g"
    and 6: "usedApiTexts (updateNotePosition ref x y g) = usedApiTexts g"
    and 7: "usedMessages (updateNotePosition ref x y g) = usedMessages g"
    and 8: "messages (updateNotePosition ref x y g) = messages g"
    and 9: "canvas (updateNotePosition ref x y g) = canvas g"
    and 10: "currentApiIndex (updateNotePosition ref x y g) = currentApiIndex g"
    by (simp_all add: ns)
  show ?thesis
    by (intro conjI) (rule 1 2 3 4 5 6 7 8 9 10)+
qed

theorem update_note_position_frame_witness:
  "updateNotePosition 0 1 2 crowded_generator
     = crowded_generator\<lparr>notes_list := [\<lparr>note_x = 1, note_y = 2, note_element = 0\<rparr>]\<rparr>
   \<and> updateNotePosition 5 1 2 crowded_generator = crowded_generator"
proof -
  have ns: "notes_list crowded_generator = [\<lparr>note_x = 20, note_y = 20, note_element = 0\<rparr>]"
    by (simp add: crowded_generator_def)
  have 1: "updateNotePosition 0 1 2 crowded_generator
     = crowded_generator\<lparr>notes_list := [\<lparr>note_x = 1, note_y = 2, note_element = 0\<rparr>]\<rparr>"
    using update_note_position_frame [of crowded_generator 0 1 2] ns by auto
  have 2: "updateNotePosition 5 1 2 crowded_generator = crowded_generator"
    using update_note_position_frame [of crowded_generator 5 1 2] ns by simp
  from 1 2 show ?thesis by blast
qed

end
